theory Spec2Isabelle
  imports Main "HOL-Library.Char_ord" "HOL-Library.List_Lexorder" "HOL-Library.Sublist"
begin

section \<open>The syntax trees the generator inspects (go/ast)\<close>

text \<open>
  Only the fields read by \<^verbatim>\<open>gen/generator.go\<close> are kept.  A general declaration carries
  its token and its specs; a function declaration its receiver (absent for a top-level
  function) and its name.  \<^verbatim>\<open>token.Token\<close> is an integer type: every token other than the
  four that the generator switches on is \<open>T_other\<close>.
\<close>

datatype Token = T_IMPORT | T_CONST | T_TYPE | T_VAR | T_other nat

datatype ImportSpec = ImportSpec (ImpName: "string option") (ImpPath: string)

datatype Spec =
    ImportS ImportSpec
  | ValueS (Names: "string list")
  | TypeS (TypeName: string)

datatype GenDecl = GenDecl (Tok: Token) (Specs: "Spec list")

datatype FuncDecl = FuncDecl (Recv: "string option") (Name: string)

datatype Decl = FuncD FuncDecl | GenD GenDecl | BadDecl

section \<open>Errors\<close>

text \<open>
  Each \<^verbatim>\<open>fmt.Errorf\<close> site of the source is one constructor holding the formatted
  arguments in order; \<open>CouldNotParse\<close> holds the formatted message itself.  The two
  template errors are the errors of \<^verbatim>\<open>text/template\<close>: the message of a parse error, and
  the data field that could not be evaluated.  \<open>Panic\<close> stands for a failed type
  assertion (\<^verbatim>\<open>spec.(*ast.ImportSpec)\<close> on a spec of another kind).
\<close>

datatype error =
    TemplateParseError string
  | TemplateExecError string
  | NameCollisionError string
  | DuplicateImportError string string
  | CouldNotParse string
  | CouldNotAddImport ImportSpec error
  | CouldNotDeclareConstant string error
  | CouldNotDeclareType string error
  | CouldNotDeclareVar string error
  | UnknownDeclaration GenDecl
  | Panic

section \<open>Generator state\<close>

text \<open>
  The embedded importer and namespace share one root scope, so the state holds the
  import registry (module path and local alias, in insertion order), the names taken
  in the root scope, and the accepted declarations.
\<close>

record Generator =
  registry :: "(string \<times> string) list"
  taken :: "string list"
  decls :: "Decl list"
  listValueLists :: "string set"
  setValueLists :: "string set"
  mapItemLists :: "string set"
  listReaders :: "string set"
  setReaders :: "string set"
  mapReaders :: "string set"

definition NewGenerator :: Generator where
  "NewGenerator =
     \<lparr>registry = [], taken = [], decls = [],
      listValueLists = {}, setValueLists = {}, mapItemLists = {},
      listReaders = {}, setReaders = {}, mapReaders = {}\<rparr>"

subsection \<open>Symbol table\<close>

text \<open>
  Modelled from the spec: the namespace type is not in \<^verbatim>\<open>gen/generator.go\<close>.  Spec 4.1: a
  name is free in the root scope when it is neither claimed there nor a reserved
  keyword of the target language (Go's 25 keywords).
\<close>

definition go_keywords :: "string list" where
  "go_keywords =
     [''break'', ''case'', ''chan'', ''const'', ''continue'', ''default'', ''defer'',
      ''else'', ''fallthrough'', ''for'', ''func'', ''go'', ''goto'', ''if'', ''import'',
      ''interface'', ''map'', ''package'', ''range'', ''return'', ''select'', ''struct'',
      ''switch'', ''type'', ''var'']"

definition is_free :: "string \<Rightarrow> string list \<Rightarrow> bool" where
  "is_free name tk \<longleftrightarrow> name \<notin> set tk \<and> name \<notin> set go_keywords"

text \<open>
  Modelled from the spec: the method \<^verbatim>\<open>Reserve\<close> of the namespace is not in
  \<^verbatim>\<open>gen/generator.go\<close>.  Spec 4.1: Reserve claims the name in the current scope and
  fails with NameCollisionError if it is already claimed in this scope or equals a
  reserved keyword.
\<close>

definition Reserve :: "string \<Rightarrow> Generator \<Rightarrow> error option \<times> Generator" where
  "Reserve name g =
     (if is_free name (taken g) then (None, g\<lparr>taken := taken g @ [name]\<rparr>)
      else (Some (NameCollisionError name), g))"

text \<open>
  Modelled from the spec: the suffixed variants of a preferred name (spec 4.1, FreshName)
  are not in \<^verbatim>\<open>gen/generator.go\<close>.  Scenario 3 of the spec numbers them in decimal from 2
  (\<open>bar\<close>, \<open>bar2\<close>).
\<close>

definition digit_char :: "nat \<Rightarrow> char" where
  "digit_char d = ''0123456789'' ! d"

fun show_nat :: "nat \<Rightarrow> string" where
  "show_nat n =
     (if n < 10 then [digit_char n] else show_nat (n div 10) @ [digit_char (n mod 10)])"

declare show_nat.simps [simp del]

lemma digit_char_inj: "a < 10 \<Longrightarrow> b < 10 \<Longrightarrow> digit_char a = digit_char b \<Longrightarrow> a = b"
proof -
  assume a: "a < 10" and b: "b < 10" and e: "digit_char a = digit_char b"
  from a have a': "a \<in> {0, 1, 2, 3, 4, 5, 6, 7, 8, 9}" by auto
  from b have b': "b \<in> {0, 1, 2, 3, 4, 5, 6, 7, 8, 9}" by auto
  from a' b' e show "a = b" by (auto simp: digit_char_def)
qed

lemma show_nat_nonempty: "show_nat n \<noteq> []"
  by (subst show_nat.simps) simp

lemma show_nat_inj: "show_nat m = show_nat n \<Longrightarrow> m = n"
proof (induction m arbitrary: n rule: show_nat.induct)
  case (1 m)
  show ?case
  proof (cases "m < 10")
    case True
    then have sm: "show_nat m = [digit_char m]" by (subst show_nat.simps) simp
    show ?thesis
    proof (cases "n < 10")
      case True
      then have "show_nat n = [digit_char n]" by (subst show_nat.simps) simp
      with sm "1.prems" \<open>m < 10\<close> True show ?thesis by (auto dest: digit_char_inj)
    next
      case False
      then have "show_nat n = show_nat (n div 10) @ [digit_char (n mod 10)]"
        by (subst show_nat.simps) simp
      with sm "1.prems" show_nat_nonempty [of "n div 10"] show ?thesis by auto
    qed
  next
    case False
    then have sm: "show_nat m = show_nat (m div 10) @ [digit_char (m mod 10)]"
      by (subst show_nat.simps) simp
    show ?thesis
    proof (cases "n < 10")
      case True
      then have "show_nat n = [digit_char n]" by (subst show_nat.simps) simp
      with sm "1.prems" show_nat_nonempty [of "m div 10"] show ?thesis by auto
    next
      case nF: False
      then have sn: "show_nat n = show_nat (n div 10) @ [digit_char (n mod 10)]"
        by (subst show_nat.simps) simp
      from sm sn "1.prems" have e1: "show_nat (m div 10) = show_nat (n div 10)"
        and e2: "digit_char (m mod 10) = digit_char (n mod 10)" by auto
      from "1.IH" [OF False e1] have "m div 10 = n div 10" .
      moreover from e2 have "m mod 10 = n mod 10"
        by (rule digit_char_inj [rotated 2]) simp_all
      ultimately show ?thesis by (metis div_mult_mod_eq)
    qed
  qed
qed

lemma taken_suffixes_finite: "finite {j. \<not> is_free (pref @ show_nat j) tk}"
proof -
  have "inj (\<lambda>j. pref @ show_nat j)"
    by (rule injI) (auto dest: show_nat_inj)
  then have "finite ((\<lambda>j. pref @ show_nat j) -` (set tk \<union> set go_keywords))"
    by (intro finite_vimageI) auto
  moreover have "{j. \<not> is_free (pref @ show_nat j) tk}
                   = (\<lambda>j. pref @ show_nat j) -` (set tk \<union> set go_keywords)"
    by (auto simp: is_free_def)
  ultimately show ?thesis by simp
qed

text \<open>The retry loop: the first suffix from \<open>i\<close> on whose variant is free.\<close>

function suffixed_name :: "string \<Rightarrow> string list \<Rightarrow> nat \<Rightarrow> string" where
  "suffixed_name pref tk i =
     (if is_free (pref @ show_nat i) tk then pref @ show_nat i
      else suffixed_name pref tk (Suc i))"
  by pat_completeness auto
termination
proof (relation
    "measure (\<lambda>(pref, tk, i). card {j. i \<le> j \<and> \<not> is_free (pref @ show_nat j) tk})")
  show "wf (measure
    (\<lambda>(pref, tk, i). card {j. i \<le> j \<and> \<not> is_free (pref @ show_nat j) tk}))"
    by simp
next
  fix pref tk i
  assume nf: "\<not> is_free (pref @ show_nat i) tk"
  let ?A = "\<lambda>i. {j. i \<le> j \<and> \<not> is_free (pref @ show_nat j) tk}"
  have fin: "finite (?A i)"
    by (rule finite_subset [OF _ taken_suffixes_finite [of pref tk]]) auto
  have "?A (Suc i) \<subseteq> ?A i" by auto
  moreover have "i \<in> ?A i" using nf by simp
  moreover have "i \<notin> ?A (Suc i)" by simp
  ultimately have "?A (Suc i) \<subset> ?A i" by blast
  with fin have "card (?A (Suc i)) < card (?A i)" by (rule psubset_card_mono)
  then show "((pref, tk, Suc i), (pref, tk, i))
      \<in> measure (\<lambda>(pref, tk, i). card {j. i \<le> j \<and> \<not> is_free (pref @ show_nat j) tk})"
    by simp
qed

declare suffixed_name.simps [simp del]

definition fresh_name :: "string \<Rightarrow> string list \<Rightarrow> string" where
  "fresh_name pref tk = (if is_free pref tk then pref else suffixed_name pref tk 2)"

text \<open>
  Modelled from the spec: \<^verbatim>\<open>NewName\<close> (the spec's FreshName) is not in
  \<^verbatim>\<open>gen/generator.go\<close>.  Spec 4.1: it returns the preferred name if free, else a
  deterministically suffixed variant, reserves it and returns it; it always terminates
  and never fails.
\<close>

definition NewName :: "string \<Rightarrow> Generator \<Rightarrow> string \<times> Generator" where
  "NewName pref g =
     (let name = fresh_name pref (taken g) in (name, g\<lparr>taken := taken g @ [name]\<rparr>))"

text \<open>
  Modelled from the spec: \<^verbatim>\<open>Child\<close> is not in \<^verbatim>\<open>gen/generator.go\<close>.  Spec 4.1 and 3: a
  child scope's reservations are invisible to the parent, and a name of a child scope
  cannot collide with a root-scope name.  The child scope is the list of its own names.
\<close>

definition Child_NewName :: "string \<Rightarrow> string list \<Rightarrow> Generator \<Rightarrow> string \<times> string list" where
  "Child_NewName pref child g =
     (let name = fresh_name pref (taken g @ child) in (name, child @ [name]))"

subsection \<open>Import registry\<close>

text \<open>
  Modelled from the spec: the derivation of an alias from a module path is not in
  \<^verbatim>\<open>gen/generator.go\<close>.  Spec 4.2: the alias is the path's trailing component, sanitised
  into a valid identifier and lower-cased.  A character that is no letter, digit or
  underscore becomes an underscore, and an underscore is put before a leading digit.
\<close>

definition lower_char :: "char \<Rightarrow> char" where
  "lower_char c =
     (let n = (of_char c :: nat) in if 65 \<le> n \<and> n \<le> 90 then char_of (n + 32) else c)"

definition ident_char :: "char \<Rightarrow> bool" where
  "ident_char c \<longleftrightarrow>
     (let n = (of_char c :: nat) in
        (48 \<le> n \<and> n \<le> 57) \<or> (65 \<le> n \<and> n \<le> 90) \<or> (97 \<le> n \<and> n \<le> 122) \<or> n = 95)"

definition is_digit :: "char \<Rightarrow> bool" where
  "is_digit c \<longleftrightarrow> (let n = (of_char c :: nat) in 48 \<le> n \<and> n \<le> 57)"

fun trailing_component :: "string \<Rightarrow> string" where
  "trailing_component [] = []"
| "trailing_component (c # cs) =
     (if CHR ''/'' \<in> set cs then trailing_component cs
      else if c = CHR ''/'' then cs else c # cs)"

definition alias_of_path :: "string \<Rightarrow> string" where
  "alias_of_path path =
     (let s = map (\<lambda>c. if ident_char c then lower_char c else CHR ''_'')
                (trailing_component path)
      in case s of [] \<Rightarrow> ''_'' | c # _ \<Rightarrow> if is_digit c then CHR ''_'' # s else s)"

text \<open>
  Modelled from the spec: \<^verbatim>\<open>AddImportSpec\<close> (the spec's AddExplicitImport) is not in
  \<^verbatim>\<open>gen/generator.go\<close>.  Spec 4.2: it reconciles a literally written import with the
  registry and fails with DuplicateImportError if it conflicts with an alias already
  promised to generated code.  The alias of the literal import is reserved through the
  symbol table, as every alias is (spec 3, Import).
\<close>

definition AddImportSpec :: "ImportSpec \<Rightarrow> Generator \<Rightarrow> error option \<times> Generator" where
  "AddImportSpec spec g =
     (let path = ImpPath spec;
          name = (case ImpName spec of Some n \<Rightarrow> n | None \<Rightarrow> alias_of_path path)
      in case map_of (registry g) path of
           Some a \<Rightarrow>
             if a = name then (None, g) else (Some (DuplicateImportError path name), g)
         | None \<Rightarrow>
             if name \<in> snd ` set (registry g) then (Some (DuplicateImportError path name), g)
             else (case Reserve name g of
                     (Some err, g') \<Rightarrow> (Some err, g')
                   | (None, g') \<Rightarrow> (None, g'\<lparr>registry := registry g' @ [(path, name)]\<rparr>)))"

text \<open>
  Modelled from the spec: \<^verbatim>\<open>Import\<close> is not in \<^verbatim>\<open>gen/generator.go\<close>.  Spec 4.2: repeated
  calls return the same alias; the first call derives the alias from the path, reserves
  it through the symbol table, and retries with a numeric suffix on collision.
\<close>

definition Import :: "string \<Rightarrow> Generator \<Rightarrow> string \<times> Generator" where
  "Import path g =
     (case map_of (registry g) path of
        Some alias \<Rightarrow> (alias, g)
      | None \<Rightarrow>
          (case NewName (alias_of_path path) g of
             (name, g') \<Rightarrow> (name, g'\<lparr>registry := registry g' @ [(path, name)]\<rparr>)))"

text \<open>
  Modelled from the spec: \<^verbatim>\<open>importDecl\<close> (the spec's Emit) is not in
  \<^verbatim>\<open>gen/generator.go\<close>; \<^verbatim>\<open>Write\<close> only tests its result against nil.  Spec 4.2: one import
  block, entries sorted by module path.
\<close>

definition importDecl :: "Generator \<Rightarrow> Decl option" where
  "importDecl g =
     (if registry g = [] then None
      else Some (GenD (GenDecl T_IMPORT
             (map (\<lambda>(path, alias). ImportS (ImportSpec (Some alias) path))
                (sort_key fst (registry g))))))"

section \<open>Recording the names of a general declaration\<close>

text \<open>The inner loop over \<^verbatim>\<open>spec.(*ast.ValueSpec).Names\<close>; \<open>wrap\<close> is the \<^verbatim>\<open>fmt.Errorf\<close> of the branch.\<close>

fun reserve_names ::
  "(string \<Rightarrow> error \<Rightarrow> error) \<Rightarrow> string list \<Rightarrow> Generator \<Rightarrow> error option \<times> Generator" where
  "reserve_names wrap [] g = (None, g)"
| "reserve_names wrap (name # names) g =
     (case Reserve name g of
        (Some err, g') \<Rightarrow> (Some (wrap name err), g')
      | (None, g') \<Rightarrow> reserve_names wrap names g')"

fun import_specs :: "Spec list \<Rightarrow> Generator \<Rightarrow> error option \<times> Generator" where
  "import_specs [] g = (None, g)"
| "import_specs (spec # specs) g =
     (case spec of
        ImportS i \<Rightarrow>
          (case AddImportSpec i g of
             (Some err, g') \<Rightarrow> (Some (CouldNotAddImport i err), g')
           | (None, g') \<Rightarrow> import_specs specs g')
      | _ \<Rightarrow> (Some Panic, g))"

fun value_specs ::
  "(string \<Rightarrow> error \<Rightarrow> error) \<Rightarrow> Spec list \<Rightarrow> Generator \<Rightarrow> error option \<times> Generator" where
  "value_specs wrap [] g = (None, g)"
| "value_specs wrap (spec # specs) g =
     (case spec of
        ValueS names \<Rightarrow>
          (case reserve_names wrap names g of
             (Some err, g') \<Rightarrow> (Some err, g')
           | (None, g') \<Rightarrow> value_specs wrap specs g')
      | _ \<Rightarrow> (Some Panic, g))"

fun type_specs :: "Spec list \<Rightarrow> Generator \<Rightarrow> error option \<times> Generator" where
  "type_specs [] g = (None, g)"
| "type_specs (spec # specs) g =
     (case spec of
        TypeS name \<Rightarrow>
          (case Reserve name g of
             (Some err, g') \<Rightarrow> (Some (CouldNotDeclareType name err), g')
           | (None, g') \<Rightarrow> type_specs specs g')
      | _ \<Rightarrow> (Some Panic, g))"

definition recordGenDeclNames :: "GenDecl \<Rightarrow> Generator \<Rightarrow> error option \<times> Generator" where
  "recordGenDeclNames d g =
     (case Tok d of
        T_IMPORT \<Rightarrow> import_specs (Specs d) g
      | T_CONST \<Rightarrow> value_specs CouldNotDeclareConstant (Specs d) g
      | T_TYPE \<Rightarrow> type_specs (Specs d) g
      | T_VAR \<Rightarrow> value_specs CouldNotDeclareVar (Specs d) g
      | T_other n \<Rightarrow> (Some (UnknownDeclaration d), g))"


section \<open>Rendering templates\<close>

text \<open>
  \<^verbatim>\<open>text/template\<close> is a library outside the repository.  Its parser is a parameter
  \<open>Parse\<close> of the model, from the template source to an error message or a parsed
  template.  A parsed template is the list of its nodes: literal text, the value of a
  data field, and calls of the two functions of the \<^verbatim>\<open>FuncMap\<close> that touch the generator,
  \<^verbatim>\<open>import\<close> (\<^verbatim>\<open>g.Import\<close>) and \<^verbatim>\<open>newVar\<close> (\<^verbatim>\<open>NewName\<close> of a child of the root scope).  The
  other functions of the \<^verbatim>\<open>FuncMap\<close> are not in \<^verbatim>\<open>gen/generator.go\<close> and are left out.  The
  data object is given by its fields, a map from field names to their text; a field that
  the object does not have is undefined, and reading it is an execution error.
\<close>

datatype Node =
    TextNode string
  | FieldNode string
  | ImportCall string
  | NewVarCall string

type_synonym data = "string \<Rightarrow> string option"

text \<open>
  \<^verbatim>\<open>tmpl.Execute(&buff, data)\<close>: the nodes run in order and write to the buffer; the first
  error stops the run, and what the functions called so far did to the generator stays.
\<close>

fun Execute ::
  "Node list \<Rightarrow> data \<Rightarrow> string \<Rightarrow> string list \<Rightarrow> Generator
     \<Rightarrow> error option \<times> string \<times> Generator" where
  "Execute [] data buff child g = (None, buff, g)"
| "Execute (TextNode t # ns) data buff child g = Execute ns data (buff @ t) child g"
| "Execute (FieldNode f # ns) data buff child g =
     (case data f of
        None \<Rightarrow> (Some (TemplateExecError f), buff, g)
      | Some v \<Rightarrow> Execute ns data (buff @ v) child g)"
| "Execute (ImportCall path # ns) data buff child g =
     (case Import path g of (alias, g') \<Rightarrow> Execute ns data (buff @ alias) child g')"
| "Execute (NewVarCall pref # ns) data buff child g =
     (case Child_NewName pref child g of
        (name, child') \<Rightarrow> Execute ns data (buff @ name) child' g)"

text \<open>
  The \<^verbatim>\<open>FuncMap\<close> is built anew in every call, with \<^verbatim>\<open>newVar\<close> bound to a new child of the
  root scope: the run starts with an empty buffer and an empty child scope.  On an
  error the result string is empty.
\<close>

definition TextTemplate ::
  "(string \<Rightarrow> string + Node list) \<Rightarrow> string \<Rightarrow> data \<Rightarrow> Generator
     \<Rightarrow> (string \<times> error option) \<times> Generator" where
  "TextTemplate Parse s data g =
     (case Parse s of
        Inl err \<Rightarrow> (([], Some (TemplateParseError err)), g)
      | Inr tmpl \<Rightarrow>
          (case Execute tmpl data [] [] g of
             (Some err, buff, g') \<Rightarrow> (([], Some err), g')
           | (None, buff, g') \<Rightarrow> ((buff, None), g')))"

definition header :: string where
  "header = ''package thriftrw'' @ [CHR 0x0A, CHR 0x0A]"

text \<open>\<^verbatim>\<open>buff.WriteString\<close> of a \<^verbatim>\<open>bytes.Buffer\<close> returns no error, so that branch is left out.\<close>

definition renderTemplate ::
  "(string \<Rightarrow> string + Node list) \<Rightarrow> string \<Rightarrow> data \<Rightarrow> Generator
     \<Rightarrow> (error + string) \<times> Generator" where
  "renderTemplate Parse s data g =
     (let buff = header
      in case TextTemplate Parse s data g of
           ((out, Some err), g') \<Rightarrow> (Inl err, g')
         | ((out, None), g') \<Rightarrow> (Inr (buff @ out), g'))"

section \<open>Declaring from a template\<close>

definition appendDecl :: "Decl \<Rightarrow> Generator \<Rightarrow> Generator" where
  "appendDecl decl g = g\<lparr>decls := decls g @ [decl]\<rparr>"

text \<open>The type switch in the loop body of \<^verbatim>\<open>DeclareFromTemplate\<close>.\<close>

definition recordDecl :: "Decl \<Rightarrow> Generator \<Rightarrow> error option \<times> Generator" where
  "recordDecl decl g =
     (case decl of
        FuncD d \<Rightarrow> (case Recv d of None \<Rightarrow> Reserve (Name d) g | Some r \<Rightarrow> (None, g))
      | GenD d \<Rightarrow> recordGenDeclNames d g
      | BadDecl \<Rightarrow> (None, g))"

text \<open>The loop over \<^verbatim>\<open>f.Decls\<close>.\<close>

fun declareDecls :: "Decl list \<Rightarrow> Generator \<Rightarrow> error option \<times> Generator" where
  "declareDecls [] g = (None, g)"
| "declareDecls (decl # rest) g =
     (case recordDecl decl g of
        (Some err, g') \<Rightarrow> (Some err, g')
      | (None, g') \<Rightarrow> declareDecls rest (appendDecl decl g'))"

text \<open>\<^verbatim>\<open>fmt.Errorf("could not parse generated code: %v:\n%s", err, bs)\<close>\<close>

definition could_not_parse :: "string \<Rightarrow> string \<Rightarrow> string" where
  "could_not_parse err bs =
     ''could not parse generated code: '' @ err @ '':'' @ [CHR 0x0A] @ bs"

text \<open>
  \<^verbatim>\<open>go/parser\<close> is a library outside the repository: \<open>ParseFile\<close> is a parameter of the
  model, from the source text to the parser's diagnostic or the declarations of the
  parsed file.
\<close>

definition DeclareFromTemplate ::
  "(string \<Rightarrow> string + Node list) \<Rightarrow> (string \<Rightarrow> string + Decl list)
     \<Rightarrow> string \<Rightarrow> data \<Rightarrow> Generator \<Rightarrow> error option \<times> Generator" where
  "DeclareFromTemplate Parse ParseFile s data g =
     (case renderTemplate Parse s data g of
        (Inl err, g') \<Rightarrow> (Some err, g')
      | (Inr bs, g') \<Rightarrow>
          (case ParseFile bs of
             Inl err \<Rightarrow> (Some (CouldNotParse (could_not_parse err bs)), g')
           | Inr f_Decls \<Rightarrow> declareDecls f_Decls g'))"

section \<open>Writing the file\<close>

text \<open>\<^verbatim>\<open>ast.File\<close>, with the two fields that \<^verbatim>\<open>Write\<close> sets: \<^verbatim>\<open>Decls\<close> and \<^verbatim>\<open>Name\<close>.\<close>

record File =
  Decls :: "Decl list"
  PackageName :: string

text \<open>The file that \<^verbatim>\<open>Write\<close> builds and hands to \<^verbatim>\<open>format.Node\<close>.\<close>

definition Write_file :: "Generator \<Rightarrow> File" where
  "Write_file g =
     (let ds = (case importDecl g of None \<Rightarrow> [] | Some d \<Rightarrow> [d])
      in \<lparr>Decls = ds @ decls g, PackageName = ''todo''\<rparr>)"

text \<open>\<^verbatim>\<open>format.Node\<close> is a library outside the repository, a parameter of the model.\<close>

definition Write :: "(File \<Rightarrow> 'out) \<Rightarrow> Generator \<Rightarrow> 'out" where
  "Write format_Node g = format_Node (Write_file g)"


section \<open>Vocabulary of the properties\<close>

text \<open>The top-level names a declaration introduces; a method introduces none.\<close>

fun names_of_spec :: "Spec \<Rightarrow> string list" where
  "names_of_spec (ImportS i) = []"
| "names_of_spec (ValueS names) = names"
| "names_of_spec (TypeS name) = [name]"

fun names_of_decl :: "Decl \<Rightarrow> string list" where
  "names_of_decl (FuncD d) = (case Recv d of None \<Rightarrow> [Name d] | Some r \<Rightarrow> [])"
| "names_of_decl (GenD d) =
     (case Tok d of
        T_IMPORT \<Rightarrow> []
      | T_other n \<Rightarrow> []
      | _ \<Rightarrow> concat (map names_of_spec (Specs d)))"
| "names_of_decl BadDecl = []"

definition declared_names :: "Decl list \<Rightarrow> string list" where
  "declared_names ds = concat (map names_of_decl ds)"

text \<open>
  A step that changes nothing but the symbol table and the import registry, and only
  adds to them.
\<close>

definition only_reserves :: "Generator \<Rightarrow> Generator \<Rightarrow> bool" where
  "only_reserves g g' \<longleftrightarrow>
     g' = g\<lparr>registry := registry g', taken := taken g'\<rparr> \<and>
     prefix (taken g) (taken g') \<and> prefix (registry g) (registry g')"

text \<open>
  The names of the accepted declarations are pairwise different and all reserved; the
  aliases of the import registry are pairwise different and all reserved.
\<close>

definition uniquely_declared :: "Generator \<Rightarrow> bool" where
  "uniquely_declared g \<longleftrightarrow>
     distinct (declared_names (decls g)) \<and> set (declared_names (decls g)) \<subseteq> set (taken g)"

definition registry_ok :: "Generator \<Rightarrow> bool" where
  "registry_ok g \<longleftrightarrow>
     distinct (map snd (registry g)) \<and> snd ` set (registry g) \<subseteq> set (taken g)"

definition is_method :: "Decl \<Rightarrow> bool" where
  "is_method decl = (case decl of FuncD d \<Rightarrow> Recv d \<noteq> None | _ \<Rightarrow> False)"

text \<open>The module paths of the \<^verbatim>\<open>import\<close> calls of a template, in order.\<close>

fun import_paths :: "Node list \<Rightarrow> string list" where
  "import_paths [] = []"
| "import_paths (ImportCall path # ns) = path # import_paths ns"
| "import_paths (n # ns) = import_paths ns"

definition import_step :: "Generator \<Rightarrow> string \<Rightarrow> Generator" where
  "import_step g path = snd (Import path g)"

definition add_import_step :: "Generator \<Rightarrow> ImportSpec \<Rightarrow> Generator" where
  "add_import_step g spec = snd (AddImportSpec spec g)"

text \<open>Every import spec of the list is added without error, one after the other.\<close>

fun all_added :: "ImportSpec list \<Rightarrow> Generator \<Rightarrow> bool" where
  "all_added [] g = True"
| "all_added (spec # specs) g =
     (fst (AddImportSpec spec g) = None \<and> all_added specs (snd (AddImportSpec spec g)))"

text \<open>An error that is, or wraps, the failure of \<^verbatim>\<open>Reserve\<close>.\<close>

fun name_collision :: "error \<Rightarrow> bool" where
  "name_collision (NameCollisionError n) = True"
| "name_collision (CouldNotAddImport i e) = name_collision e"
| "name_collision (CouldNotDeclareConstant n e) = name_collision e"
| "name_collision (CouldNotDeclareType n e) = name_collision e"
| "name_collision (CouldNotDeclareVar n e) = name_collision e"
| "name_collision e = False"

text \<open>
  The driver calls \<^verbatim>\<open>DeclareFromTemplate\<close> once per declaration of the type model and
  stops at the first error (spec 2 and 7).  \<open>DeclareAll\<close> is that sequence of calls.
\<close>

fun DeclareAll ::
  "(string \<Rightarrow> string + Node list) \<Rightarrow> (string \<Rightarrow> string + Decl list)
     \<Rightarrow> (string \<times> data) list \<Rightarrow> Generator \<Rightarrow> error option \<times> Generator" where
  "DeclareAll Parse ParseFile [] g = (None, g)"
| "DeclareAll Parse ParseFile (call # calls) g =
     (case DeclareFromTemplate Parse ParseFile (fst call) (snd call) g of
        (Some err, g') \<Rightarrow> (Some err, g')
      | (None, g') \<Rightarrow> DeclareAll Parse ParseFile calls g')"

definition declare_step ::
  "(string \<Rightarrow> string + Node list) \<Rightarrow> (string \<Rightarrow> string + Decl list)
     \<Rightarrow> Generator \<Rightarrow> string \<times> data \<Rightarrow> Generator" where
  "declare_step Parse ParseFile g call =
     snd (DeclareFromTemplate Parse ParseFile (fst call) (snd call) g)"

text \<open>
  The declarations parsed from the rendered text of each call of the sequence, in call
  order, up to the first call whose text does not render or parse.
\<close>

fun fragments ::
  "(string \<Rightarrow> string + Node list) \<Rightarrow> (string \<Rightarrow> string + Decl list)
     \<Rightarrow> (string \<times> data) list \<Rightarrow> Generator \<Rightarrow> Decl list list" where
  "fragments Parse ParseFile [] g = []"
| "fragments Parse ParseFile (call # calls) g =
     (case renderTemplate Parse (fst call) (snd call) g of
        (Inl err, g') \<Rightarrow> []
      | (Inr bs, g') \<Rightarrow>
          (case ParseFile bs of
             Inl err \<Rightarrow> []
           | Inr ds \<Rightarrow> ds # fragments Parse ParseFile calls (snd (declareDecls ds g'))))"

text \<open>
  Go's grammar allows one package clause, at the start of the file: a Go parser rejects
  a text in which a second package clause follows the header.
\<close>

definition one_package_clause :: "(string \<Rightarrow> string + Decl list) \<Rightarrow> bool" where
  "one_package_clause ParseFile \<longleftrightarrow> (\<forall>src. isl (ParseFile (header @ ''package '' @ src)))"

text \<open>
  A template parser and a Go parser for the examples: each knows the few sources used
  below and rejects every other text.
\<close>

definition type_template :: string where
  "type_template = ''type <.Name> int32''"

definition two_types_template :: string where
  "two_types_template = ''type <.Name> int32; type <.Name> int32''"

definition import_missing_template :: string where
  "import_missing_template = ''var _ = <import \"fmt\">.Sprint(<.Missing>)''"

definition import_unclosed_template :: string where
  "import_unclosed_template = ''var _ = <import \"fmt\">.Sprint(''"

definition method_template :: string where
  "method_template = ''func (v <.Name>) String() string''"

definition import_strings_template :: string where
  "import_strings_template = ''import \"strings\"''"

definition package_template :: string where
  "package_template = ''package <.Name>''"

definition example_Parse :: "string \<Rightarrow> string + Node list" where
  "example_Parse s =
     (if s = type_template then
        Inr [TextNode ''type '', FieldNode ''Name'', TextNode '' int32'']
      else if s = two_types_template then
        Inr [TextNode ''type '', FieldNode ''Name'', TextNode '' int32; type '',
             FieldNode ''Name'', TextNode '' int32'']
      else if s = import_missing_template then
        Inr [TextNode ''var _ = '', ImportCall ''fmt'', TextNode ''.Sprint('',
             FieldNode ''Missing'', TextNode '')'']
      else if s = import_unclosed_template then
        Inr [TextNode ''var _ = '', ImportCall ''fmt'', TextNode ''.Sprint('']
      else if s = method_template then
        Inr [TextNode ''func (v '', FieldNode ''Name'', TextNode '') String() string'']
      else if s = import_strings_template then Inr [TextNode ''import \"strings\"'']
      else if s = package_template then Inr [TextNode ''package '', FieldNode ''Name'']
      else Inl ''unexpected input'')"

definition example_ParseFile :: "string \<Rightarrow> string + Decl list" where
  "example_ParseFile bs =
     (if bs = header @ ''type Foo int32'' then Inr [GenD (GenDecl T_TYPE [TypeS ''Foo''])]
      else if bs = header @ ''type Bar int32'' then Inr [GenD (GenDecl T_TYPE [TypeS ''Bar''])]
      else if bs = header @ ''type Foo int32; type Foo int32'' then
        Inr [GenD (GenDecl T_TYPE [TypeS ''Foo'']), GenD (GenDecl T_TYPE [TypeS ''Foo''])]
      else if bs = header @ ''func (v Foo) String() string'' then
        Inr [FuncD (FuncDecl (Some ''Foo'') ''String'')]
      else if bs = header @ ''func (v Bar) String() string'' then
        Inr [FuncD (FuncDecl (Some ''Bar'') ''String'')]
      else if bs = header @ ''import \"strings\"'' then
        Inr [GenD (GenDecl T_IMPORT [ImportS (ImportSpec None ''strings'')])]
      else Inl ''expected declaration'')"

text \<open>The generator after \<^verbatim>\<open>Import("x/strings")\<close>: the alias \<open>strings\<close> is promised to that path.\<close>

definition strings_promised :: Generator where
  "strings_promised =
     NewGenerator\<lparr>registry := [(''x/strings'', ''strings'')], taken := [''strings'']\<rparr>"

definition name_is :: "string \<Rightarrow> data" where
  "name_is v = (\<lambda>f. if f = ''Name'' then Some v else None)"

section \<open>Properties\<close>

subsection \<open>What each operation does to the state\<close>

lemma Reserve_None:
  "Reserve name g = (None, g') \<longleftrightarrow> is_free name (taken g) \<and> g' = g\<lparr>taken := taken g @ [name]\<rparr>"
  by (auto simp: Reserve_def)


lemma Reserve_cases:
  obtains (ok) "is_free name (taken g)" "Reserve name g = (None, g\<lparr>taken := taken g @ [name]\<rparr>)"
        | (taken) "\<not> is_free name (taken g)" "Reserve name g = (Some (NameCollisionError name), g)"
  by (cases "is_free name (taken g)") (auto simp: Reserve_def)

lemma reserve_names_result:
  "reserve_names wrap names g = (r, g') \<Longrightarrow>
   \<exists>pre post. names = pre @ post \<and> g' = g\<lparr>taken := taken g @ pre\<rparr> \<and> distinct pre \<and>
     set pre \<inter> set (taken g) = {} \<and> (r = None \<longleftrightarrow> post = [])"
proof (induction names arbitrary: g)
  case Nil
  then show ?case by auto
next
  case (Cons name names)
  show ?case
  proof (cases name g rule: Reserve_cases)
    case ok
    let ?g1 = "g\<lparr>taken := taken g @ [name]\<rparr>"
    from ok Cons.prems have "reserve_names wrap names ?g1 = (r, g')" by simp
    from Cons.IH [OF this] obtain pre post where
      p: "names = pre @ post" "g' = ?g1\<lparr>taken := taken ?g1 @ pre\<rparr>" "distinct pre"
         "set pre \<inter> set (taken ?g1) = {}" "r = None \<longleftrightarrow> post = []"
      by blast
    from p ok(1) have "name # names = (name # pre) @ post \<and>
        g' = g\<lparr>taken := taken g @ (name # pre)\<rparr> \<and> distinct (name # pre) \<and>
        set (name # pre) \<inter> set (taken g) = {} \<and> (r = None \<longleftrightarrow> post = [])"
      by (auto simp: is_free_def)
    then show ?thesis by blast
  next
    case taken
    with Cons.prems have "name # names = [] @ (name # names) \<and> g' = g\<lparr>taken := taken g @ []\<rparr> \<and>
        distinct ([]::string list) \<and> set [] \<inter> set (taken g) = {} \<and> (r = None \<longleftrightarrow> name # names = [])"
      by auto
    then show ?thesis by blast
  qed
qed

lemma value_specs_result:
  "value_specs wrap specs g = (r, g') \<Longrightarrow>
   \<exists>pre post. concat (map names_of_spec specs) = pre @ post \<and>
     g' = g\<lparr>taken := taken g @ pre\<rparr> \<and> distinct pre \<and> set pre \<inter> set (taken g) = {} \<and>
     (r = None \<longrightarrow> post = []) \<and> (\<forall>e. r = Some e \<longrightarrow> name_collision e \<longrightarrow> post \<noteq> [])"
proof (induction specs arbitrary: g)
  case Nil
  then show ?case by auto
next
  case (Cons spec specs)
  let ?rest = "concat (map names_of_spec specs)"
  show ?case
  proof (cases spec)
    case (ValueS names)
    obtain r1 g1 where r1: "reserve_names wrap names g = (r1, g1)" by fastforce
    from reserve_names_result [OF r1] obtain pre1 post1 where
      p1: "names = pre1 @ post1" "g1 = g\<lparr>taken := taken g @ pre1\<rparr>" "distinct pre1"
          "set pre1 \<inter> set (taken g) = {}" "r1 = None \<longleftrightarrow> post1 = []"
      by blast
    show ?thesis
    proof (cases r1)
      case None
      with r1 ValueS Cons.prems have "value_specs wrap specs g1 = (r, g')" by simp
      from Cons.IH [OF this] obtain pre2 post2 where
        p2: "?rest = pre2 @ post2" "g' = g1\<lparr>taken := taken g1 @ pre2\<rparr>" "distinct pre2"
            "set pre2 \<inter> set (taken g1) = {}" "r = None \<longrightarrow> post2 = []"
            "\<forall>e. r = Some e \<longrightarrow> name_collision e \<longrightarrow> post2 \<noteq> []"
        by blast
      from None p1 have names: "names = pre1" by simp
      from p1 p2 names ValueS have
        "concat (map names_of_spec (spec # specs)) = (pre1 @ pre2) @ post2 \<and>
         g' = g\<lparr>taken := taken g @ (pre1 @ pre2)\<rparr> \<and> distinct (pre1 @ pre2) \<and>
         set (pre1 @ pre2) \<inter> set (taken g) = {} \<and> (r = None \<longrightarrow> post2 = []) \<and>
         (\<forall>e. r = Some e \<longrightarrow> name_collision e \<longrightarrow> post2 \<noteq> [])"
        by auto
      then show ?thesis by blast
    next
      case (Some e)
      with r1 ValueS Cons.prems have "r = Some e" "g' = g1" by simp_all
      with p1 Some ValueS have
        "concat (map names_of_spec (spec # specs)) = pre1 @ (post1 @ ?rest) \<and>
         g' = g\<lparr>taken := taken g @ pre1\<rparr> \<and> distinct pre1 \<and>
         set pre1 \<inter> set (taken g) = {} \<and> (r = None \<longrightarrow> post1 @ ?rest = []) \<and>
         (\<forall>e. r = Some e \<longrightarrow> name_collision e \<longrightarrow> post1 @ ?rest \<noteq> [])"
        by auto
      then show ?thesis by blast
    qed
  next
    case (ImportS i)
    with Cons.prems have "r = Some Panic" "g' = g" by simp_all
    then have
      "concat (map names_of_spec (spec # specs)) = [] @ concat (map names_of_spec (spec # specs)) \<and>
       g' = g\<lparr>taken := taken g @ []\<rparr> \<and> distinct ([]::string list) \<and>
       set [] \<inter> set (taken g) = {} \<and>
       (r = None \<longrightarrow> concat (map names_of_spec (spec # specs)) = []) \<and>
       (\<forall>e. r = Some e \<longrightarrow> name_collision e \<longrightarrow> concat (map names_of_spec (spec # specs)) \<noteq> [])"
      by auto
    then show ?thesis by blast
  next
    case (TypeS n)
    with Cons.prems have "r = Some Panic" "g' = g" by simp_all
    then have
      "concat (map names_of_spec (spec # specs)) = [] @ concat (map names_of_spec (spec # specs)) \<and>
       g' = g\<lparr>taken := taken g @ []\<rparr> \<and> distinct ([]::string list) \<and>
       set [] \<inter> set (taken g) = {} \<and>
       (r = None \<longrightarrow> concat (map names_of_spec (spec # specs)) = []) \<and>
       (\<forall>e. r = Some e \<longrightarrow> name_collision e \<longrightarrow> concat (map names_of_spec (spec # specs)) \<noteq> [])"
      by auto
    then show ?thesis by blast
  qed
qed

lemma type_specs_result:
  "type_specs specs g = (r, g') \<Longrightarrow>
   \<exists>pre post. concat (map names_of_spec specs) = pre @ post \<and>
     g' = g\<lparr>taken := taken g @ pre\<rparr> \<and> distinct pre \<and> set pre \<inter> set (taken g) = {} \<and>
     (r = None \<longrightarrow> post = []) \<and> (\<forall>e. r = Some e \<longrightarrow> name_collision e \<longrightarrow> post \<noteq> [])"
proof (induction specs arbitrary: g)
  case Nil
  then show ?case by auto
next
  case (Cons spec specs)
  let ?rest = "concat (map names_of_spec specs)"
  let ?all = "concat (map names_of_spec (spec # specs))"
  have stop: "\<exists>pre post. ?all = pre @ post \<and>
     g' = g\<lparr>taken := taken g @ pre\<rparr> \<and> distinct pre \<and> set pre \<inter> set (taken g) = {} \<and>
     (r = None \<longrightarrow> post = []) \<and> (\<forall>e. r = Some e \<longrightarrow> name_collision e \<longrightarrow> post \<noteq> [])"
    if "g' = g" "r \<noteq> None" "\<forall>e. r = Some e \<longrightarrow> name_collision e \<longrightarrow> ?all \<noteq> []"
  proof -
    from that have "?all = [] @ ?all \<and>
       g' = g\<lparr>taken := taken g @ []\<rparr> \<and> distinct ([]::string list) \<and>
       set [] \<inter> set (taken g) = {} \<and> (r = None \<longrightarrow> ?all = []) \<and>
       (\<forall>e. r = Some e \<longrightarrow> name_collision e \<longrightarrow> ?all \<noteq> [])"
      by auto
    then show ?thesis by blast
  qed
  show ?case
  proof (cases spec)
    case (TypeS name)
    show ?thesis
    proof (cases name g rule: Reserve_cases)
      case ok
      let ?g1 = "g\<lparr>taken := taken g @ [name]\<rparr>"
      from ok TypeS Cons.prems have "type_specs specs ?g1 = (r, g')" by simp
      from Cons.IH [OF this] obtain pre2 post2 where
        p2: "?rest = pre2 @ post2" "g' = ?g1\<lparr>taken := taken ?g1 @ pre2\<rparr>" "distinct pre2"
            "set pre2 \<inter> set (taken ?g1) = {}" "r = None \<longrightarrow> post2 = []"
            "\<forall>e. r = Some e \<longrightarrow> name_collision e \<longrightarrow> post2 \<noteq> []"
        by blast
      from p2 ok(1) TypeS have
        "?all = (name # pre2) @ post2 \<and>
         g' = g\<lparr>taken := taken g @ (name # pre2)\<rparr> \<and> distinct (name # pre2) \<and>
         set (name # pre2) \<inter> set (taken g) = {} \<and> (r = None \<longrightarrow> post2 = []) \<and>
         (\<forall>e. r = Some e \<longrightarrow> name_collision e \<longrightarrow> post2 \<noteq> [])"
        by (auto simp: is_free_def)
      then show ?thesis by blast
    next
      case taken
      with TypeS Cons.prems show ?thesis by (intro stop) auto
    qed
  next
    case (ImportS i)
    with Cons.prems show ?thesis by (intro stop) auto
  next
    case (ValueS ns)
    with Cons.prems show ?thesis by (intro stop) auto
  qed
qed

lemma only_reserves_refl: "only_reserves g g"
  by (simp add: only_reserves_def)

lemma only_reserves_trans:
  "only_reserves g g' \<Longrightarrow> only_reserves g' g'' \<Longrightarrow> only_reserves g g''"
proof -
  assume a: "only_reserves g g'" and b: "only_reserves g' g''"
  from a have 1: "g' = g\<lparr>registry := registry g', taken := taken g'\<rparr>"
    by (simp add: only_reserves_def)
  from b have 2: "g'' = g'\<lparr>registry := registry g'', taken := taken g''\<rparr>"
    by (simp add: only_reserves_def)
  have "g'' = g\<lparr>registry := registry g'', taken := taken g''\<rparr>"
    by (subst 2, subst 1) simp
  moreover from a b have "prefix (taken g) (taken g'')" "prefix (registry g) (registry g'')"
    by (auto simp: only_reserves_def intro: prefix_order.trans)
  ultimately show ?thesis by (simp add: only_reserves_def)
qed

lemma only_reserves_decls: "only_reserves g g' \<Longrightarrow> decls g' = decls g"
  by (cases g, cases g') (simp add: only_reserves_def)

lemma only_reserves_taken: "only_reserves g g' \<Longrightarrow> set (taken g) \<subseteq> set (taken g')"
  by (auto simp: only_reserves_def dest: set_mono_prefix)

lemma only_reserves_registry: "only_reserves g g' \<Longrightarrow> set (registry g) \<subseteq> set (registry g')"
  by (auto simp: only_reserves_def dest: set_mono_prefix)

lemma only_reserves_taken_append: "only_reserves g (g\<lparr>taken := taken g @ names\<rparr>)"
  by (simp add: only_reserves_def)

lemma Reserve_only_reserves: "Reserve name g = (r, g') \<Longrightarrow> only_reserves g g'"
  by (auto simp: Reserve_def only_reserves_def split: if_splits)

lemma NewName_only_reserves: "NewName pref g = (name, g') \<Longrightarrow> only_reserves g g'"
  by (auto simp: NewName_def only_reserves_def Let_def)

lemma Import_only_reserves: "Import path g = (alias, g') \<Longrightarrow> only_reserves g g'"
  by (auto simp: Import_def NewName_def only_reserves_def Let_def split: option.splits)

lemma AddImportSpec_only_reserves: "AddImportSpec spec g = (r, g') \<Longrightarrow> only_reserves g g'"
  by (auto simp: AddImportSpec_def Reserve_def only_reserves_def Let_def
      split: option.splits if_splits)

lemma Execute_only_reserves:
  "Execute ns data buff child g = (r, out, g') \<Longrightarrow> only_reserves g g'"
proof (induction ns data buff child g rule: Execute.induct)
  case (4 path ns data buff child g)
  obtain al g1 where i: "Import path g = (al, g1)" by fastforce
  with "4.prems" have "Execute ns data (buff @ al) child g1 = (r, out, g')" by simp
  with "4.IH" i have "only_reserves g1 g'" by simp
  with Import_only_reserves [OF i] show ?case by (rule only_reserves_trans)
qed (auto simp: only_reserves_refl split: option.splits prod.splits)

lemma TextTemplate_only_reserves:
  "TextTemplate Parse s data g = (r, g') \<Longrightarrow> only_reserves g g'"
  by (auto simp: TextTemplate_def only_reserves_refl
      split: sum.splits prod.splits option.splits dest: Execute_only_reserves)

lemma renderTemplate_only_reserves:
  "renderTemplate Parse s data g = (r, g') \<Longrightarrow> only_reserves g g'"
  by (auto simp: renderTemplate_def
      split: prod.splits option.splits dest: TextTemplate_only_reserves)

lemma import_specs_only_reserves: "import_specs specs g = (r, g') \<Longrightarrow> only_reserves g g'"
proof (induction specs arbitrary: g)
  case Nil
  then show ?case by (simp add: only_reserves_refl)
next
  case (Cons spec specs)
  show ?case
  proof (cases spec)
    case (ImportS i)
    obtain r1 g1 where a: "AddImportSpec i g = (r1, g1)" by fastforce
    note g1 = AddImportSpec_only_reserves [OF a]
    show ?thesis
    proof (cases r1)
      case None
      with a ImportS Cons.prems have "import_specs specs g1 = (r, g')" by simp
      from g1 Cons.IH [OF this] show ?thesis by (rule only_reserves_trans)
    next
      case (Some e)
      with a ImportS Cons.prems g1 show ?thesis by simp
    qed
  qed (use Cons.prems in \<open>auto simp: only_reserves_refl\<close>)
qed

lemma recordGenDeclNames_only_reserves:
  "recordGenDeclNames d g = (r, g') \<Longrightarrow> only_reserves g g'"
  by (auto simp: recordGenDeclNames_def only_reserves_refl only_reserves_taken_append
      split: Token.splits
      dest: import_specs_only_reserves value_specs_result type_specs_result)

lemma recordDecl_only_reserves: "recordDecl decl g = (r, g') \<Longrightarrow> only_reserves g g'"
  by (auto simp: recordDecl_def only_reserves_refl
      split: Decl.splits option.splits
      dest: Reserve_only_reserves recordGenDeclNames_only_reserves)

text \<open>A declaration that is recorded without error: its names were free, and are now taken.\<close>

lemma recordDecl_success:
  assumes "recordDecl decl g = (None, g')"
  shows "distinct (names_of_decl decl) \<and> set (names_of_decl decl) \<inter> set (taken g) = {} \<and>
         set (names_of_decl decl) \<subseteq> set (taken g')"
proof (cases decl)
  case (FuncD d)
  with assms show ?thesis
    by (auto simp: recordDecl_def Reserve_None is_free_def split: option.splits)
next
  case (GenD d)
  with assms have r: "recordGenDeclNames d g = (None, g')" by (simp add: recordDecl_def)
  show ?thesis
  proof (cases "Tok d")
    case T_CONST
    with r have "value_specs CouldNotDeclareConstant (Specs d) g = (None, g')"
      by (simp add: recordGenDeclNames_def)
    from value_specs_result [OF this] GenD T_CONST show ?thesis by auto
  next
    case T_VAR
    with r have "value_specs CouldNotDeclareVar (Specs d) g = (None, g')"
      by (simp add: recordGenDeclNames_def)
    from value_specs_result [OF this] GenD T_VAR show ?thesis by auto
  next
    case T_TYPE
    with r have "type_specs (Specs d) g = (None, g')"
      by (simp add: recordGenDeclNames_def)
    from type_specs_result [OF this] GenD T_TYPE show ?thesis by auto
  qed (use GenD in auto)
next
  case BadDecl
  then show ?thesis by simp
qed


subsection \<open>The loop over the declarations of a fragment\<close>

lemma declared_names_append [simp]:
  "declared_names (xs @ ys) = declared_names xs @ declared_names ys"
  by (simp add: declared_names_def)

lemma declared_names_Cons [simp]:
  "declared_names (d # ds) = names_of_decl d @ declared_names ds"
  by (simp add: declared_names_def)

lemma declared_names_Nil [simp]: "declared_names [] = []"
  by (simp add: declared_names_def)

lemma declareDecls_success:
  "declareDecls ds g = (None, g') \<Longrightarrow>
   decls g' = decls g @ ds \<and> set (taken g) \<subseteq> set (taken g') \<and>
   set (declared_names ds) \<subseteq> set (taken g') \<and> g' = g\<lparr>registry := registry g', taken := taken g', decls := decls g'\<rparr>"
proof (induction ds arbitrary: g)
  case Nil
  then show ?case by simp
next
  case (Cons d ds)
  obtain r1 g1 where r1: "recordDecl d g = (r1, g1)" by fastforce
  with Cons.prems have none: "r1 = None" by (cases r1) simp_all
  note fr = recordDecl_only_reserves [OF r1]
  from r1 none Cons.prems have "declareDecls ds (appendDecl d g1) = (None, g')" by simp
  note ih = Cons.IH [OF this]
  from recordDecl_success r1 none have n: "set (names_of_decl d) \<subseteq> set (taken g1)" by blast
  have tk: "taken (appendDecl d g1) = taken g1"
    and dc: "decls (appendDecl d g1) = decls g @ [d]"
    using only_reserves_decls [OF fr] by (simp_all add: appendDecl_def)
  have 1: "decls g' = decls g @ d # ds" using ih dc by simp
  have 2: "set (taken g) \<subseteq> set (taken g')"
    using only_reserves_taken [OF fr] ih tk by auto
  have 3: "set (declared_names (d # ds)) \<subseteq> set (taken g')"
    using n ih tk by auto
  from fr have e1: "g1 = g\<lparr>registry := registry g1, taken := taken g1\<rparr>"
    by (simp add: only_reserves_def)
  from ih have e2: "g' = (appendDecl d g1)\<lparr>registry := registry g', taken := taken g', decls := decls g'\<rparr>"
    by (elim conjE)
  have 4: "g' = g\<lparr>registry := registry g', taken := taken g', decls := decls g'\<rparr>"
    by (subst e2, subst e1) (simp add: appendDecl_def)
  from 1 2 3 4 show ?case by simp
qed


lemma only_reserves_uniquely_declared:
  "only_reserves g g' \<Longrightarrow> uniquely_declared g \<Longrightarrow> uniquely_declared g'"
  using only_reserves_decls [of g g'] only_reserves_taken [of g g']
  by (auto simp: uniquely_declared_def)

lemma declareDecls_uniquely_declared:
  "declareDecls ds g = (r, g') \<Longrightarrow> uniquely_declared g \<Longrightarrow> uniquely_declared g'"
proof (induction ds arbitrary: g)
  case Nil
  then show ?case by simp
next
  case (Cons d ds)
  obtain r1 g1 where r1: "recordDecl d g = (r1, g1)" by fastforce
  note fr = recordDecl_only_reserves [OF r1]
  show ?case
  proof (cases r1)
    case (Some e)
    with r1 Cons.prems have "g' = g1" by simp
    with fr Cons.prems(2) show ?thesis by (simp add: only_reserves_uniquely_declared)
  next
    case None
    with r1 Cons.prems have run: "declareDecls ds (appendDecl d g1) = (r, g')" by simp
    from recordDecl_success r1 None have
      s: "distinct (names_of_decl d)" "set (names_of_decl d) \<inter> set (taken g) = {}"
         "set (names_of_decl d) \<subseteq> set (taken g1)"
      by blast+
    from Cons.prems(2) s only_reserves_decls [OF fr] only_reserves_taken [OF fr]
    have "uniquely_declared (appendDecl d g1)"
      by (auto simp: uniquely_declared_def appendDecl_def)
    with Cons.IH [OF run] show ?thesis .
  qed
qed

lemma DeclareFromTemplate_uniquely_declared:
  assumes "uniquely_declared g"
  shows "uniquely_declared (snd (DeclareFromTemplate Parse ParseFile s data g))"
proof -
  obtain r g1 where rt: "renderTemplate Parse s data g = (r, g1)" by fastforce
  from renderTemplate_only_reserves [OF rt] assms have u1: "uniquely_declared g1"
    by (rule only_reserves_uniquely_declared)
  show ?thesis
  proof (cases r)
    case (Inl e)
    with rt u1 show ?thesis by (simp add: DeclareFromTemplate_def)
  next
    case (Inr bs)
    show ?thesis
    proof (cases "ParseFile bs")
      case (Inl diag)
      with Inr rt u1 show ?thesis by (simp add: DeclareFromTemplate_def)
    next
      case ds: (Inr ds)
      obtain r2 g2 where dd: "declareDecls ds g1 = (r2, g2)" by fastforce
      from declareDecls_uniquely_declared [OF dd u1] Inr ds rt dd show ?thesis
        by (simp add: DeclareFromTemplate_def)
    qed
  qed
qed

lemma uniquely_declared_NewGenerator: "uniquely_declared NewGenerator"
  by (simp add: uniquely_declared_def NewGenerator_def)

lemma foldl_declare_step_uniquely_declared:
  "uniquely_declared g \<Longrightarrow> uniquely_declared (foldl (declare_step Parse ParseFile) g calls)"
  by (induction calls arbitrary: g)
     (simp_all add: declare_step_def DeclareFromTemplate_uniquely_declared)

text \<open>The three ways a call of DeclareFromTemplate ends.\<close>

lemma DeclareFromTemplate_cases:
  obtains
    (render_error) e g1 where "renderTemplate Parse s data g = (Inl e, g1)"
      "DeclareFromTemplate Parse ParseFile s data g = (Some e, g1)"
  | (parse_error) bs g1 diag where "renderTemplate Parse s data g = (Inr bs, g1)"
      "ParseFile bs = Inl diag"
      "DeclareFromTemplate Parse ParseFile s data g
         = (Some (CouldNotParse (could_not_parse diag bs)), g1)"
  | (parsed) bs g1 ds where "renderTemplate Parse s data g = (Inr bs, g1)"
      "ParseFile bs = Inr ds"
      "DeclareFromTemplate Parse ParseFile s data g = declareDecls ds g1"
proof -
  obtain r g1 where rt: "renderTemplate Parse s data g = (r, g1)" by fastforce
  show ?thesis
  proof (cases r)
    case (Inl e)
    with rt show ?thesis by (intro render_error [of e g1]) (simp_all add: DeclareFromTemplate_def)
  next
    case (Inr bs)
    show ?thesis
    proof (cases "ParseFile bs")
      case (Inl diag)
      with Inr rt show ?thesis
        by (intro parse_error [of bs g1 diag]) (simp_all add: DeclareFromTemplate_def)
    next
      case ds: (Inr ds)
      with Inr rt show ?thesis
        by (intro parsed [of bs g1 ds]) (simp_all add: DeclareFromTemplate_def)
    qed
  qed
qed

subsection \<open>The loops of recordGenDeclNames never report an unknown declaration\<close>

lemma reserve_names_not_unknown:
  "(\<And>n e. wrap n e \<noteq> UnknownDeclaration d) \<Longrightarrow>
   fst (reserve_names wrap names g) \<noteq> Some (UnknownDeclaration d)"
  by (induction names arbitrary: g) (auto simp: Reserve_def split: prod.splits option.splits)

lemma value_specs_not_unknown:
  "(\<And>n e. wrap n e \<noteq> UnknownDeclaration d) \<Longrightarrow>
   fst (value_specs wrap specs g) \<noteq> Some (UnknownDeclaration d)"
proof (induction specs arbitrary: g)
  case Nil
  then show ?case by simp
next
  case (Cons spec specs)
  show ?case
  proof (cases spec)
    case (ValueS names)
    from Cons.prems have "fst (reserve_names wrap names g) \<noteq> Some (UnknownDeclaration d)"
      by (rule reserve_names_not_unknown)
    with ValueS Cons show ?thesis
      by (auto split: prod.splits option.splits)
  qed simp_all
qed

lemma type_specs_not_unknown:
  "fst (type_specs specs g) \<noteq> Some (UnknownDeclaration d)"
  by (induction specs arbitrary: g)
     (auto simp: Reserve_def split: Spec.splits prod.splits option.splits)

lemma import_specs_not_unknown:
  "fst (import_specs specs g) \<noteq> Some (UnknownDeclaration d)"
  by (induction specs arbitrary: g)
     (auto split: Spec.splits prod.splits option.splits)

text \<open>
  C10.  For a general declaration whose token is IMPORT, CONST, TYPE or VAR,
  recordGenDeclNames never returns the "unknown declaration" error of its default
  branch, whatever the specs and the generator state are.
\<close>

theorem recordGenDeclNames_known_token:
  assumes "Tok d \<in> {T_IMPORT, T_CONST, T_TYPE, T_VAR}"
  shows "fst (recordGenDeclNames d g) \<noteq> Some (UnknownDeclaration d')"
proof -
  from assms consider "Tok d = T_IMPORT" | "Tok d = T_CONST" | "Tok d = T_TYPE" | "Tok d = T_VAR"
    by auto
  then show ?thesis
  proof cases
    case 1
    then show ?thesis by (simp add: recordGenDeclNames_def import_specs_not_unknown)
  next
    case 2
    then show ?thesis by (simp add: recordGenDeclNames_def value_specs_not_unknown)
  next
    case 3
    then show ?thesis by (simp add: recordGenDeclNames_def type_specs_not_unknown)
  next
    case 4
    then show ?thesis by (simp add: recordGenDeclNames_def value_specs_not_unknown)
  qed
qed

theorem recordGenDeclNames_known_token_witness:
  "Tok (GenDecl T_TYPE [TypeS ''Foo'']) \<in> {T_IMPORT, T_CONST, T_TYPE, T_VAR} \<and>
   fst (recordGenDeclNames (GenDecl T_TYPE [TypeS ''Foo'']) NewGenerator)
     \<noteq> Some (UnknownDeclaration (GenDecl T_TYPE [TypeS ''Foo'']))"
  using recordGenDeclNames_known_token
    [of "GenDecl T_TYPE [TypeS ''Foo'']" NewGenerator "GenDecl T_TYPE [TypeS ''Foo'']"]
  by simp

subsection \<open>Running a template\<close>


lemma Execute_imports:
  "Execute ns data buff child g = (r, out, g') \<Longrightarrow>
   \<exists>paths. prefix paths (import_paths ns) \<and> g' = foldl import_step g paths \<and>
     (r = None \<longrightarrow> paths = import_paths ns)"
proof (induction ns data buff child g rule: Execute.induct)
  case (1 data buff child g)
  then show ?case by simp
next
  case (2 t ns data buff child g)
  then show ?case by simp
next
  case (3 f ns data buff child g)
  show ?case
  proof (cases "data f")
    case None
    with "3.prems" have "prefix [] (import_paths (FieldNode f # ns)) \<and>
        g' = foldl import_step g [] \<and> (r = None \<longrightarrow> [] = import_paths (FieldNode f # ns))"
      by auto
    then show ?thesis by (intro exI)
  next
    case (Some v)
    with "3.prems" "3.IH" show ?thesis by simp
  qed
next
  case (4 path ns data buff child g)
  obtain al g1 where i: "Import path g = (al, g1)" by fastforce
  with "4.prems" have "Execute ns data (buff @ al) child g1 = (r, out, g')" by simp
  from "4.IH" [OF i [symmetric] this] obtain paths where
    p: "prefix paths (import_paths ns)" "g' = foldl import_step g1 paths"
       "r = None \<longrightarrow> paths = import_paths ns"
    by (elim exE conjE)
  from i have "g1 = import_step g path" by (simp add: import_step_def)
  with p have "prefix (path # paths) (import_paths (ImportCall path # ns)) \<and>
      g' = foldl import_step g (path # paths) \<and>
      (r = None \<longrightarrow> path # paths = import_paths (ImportCall path # ns))"
    by simp
  then show ?case by (intro exI)
next
  case (5 pref ns data buff child g)
  obtain name child' where c: "Child_NewName pref child g = (name, child')" by fastforce
  with "5.prems" have "Execute ns data (buff @ name) child' g = (r, out, g')" by simp
  from "5.IH" [OF c [symmetric] this] show ?case by simp
qed


lemma TextTemplate_imports:
  "TextTemplate Parse s data g = (r, g') \<Longrightarrow>
   \<exists>paths. g' = foldl import_step g paths \<and>
     prefix paths (case Parse s of Inl err \<Rightarrow> [] | Inr tmpl \<Rightarrow> import_paths tmpl) \<and>
     (snd r = None \<longrightarrow> (\<exists>tmpl. Parse s = Inr tmpl \<and> paths = import_paths tmpl))"
proof (cases "Parse s")
  case (Inl err)
  assume "TextTemplate Parse s data g = (r, g')"
  with Inl have "g' = foldl import_step g [] \<and>
     prefix [] (case Parse s of Inl err \<Rightarrow> [] | Inr tmpl \<Rightarrow> import_paths tmpl) \<and>
     (snd r = None \<longrightarrow> (\<exists>tmpl. Parse s = Inr tmpl \<and> [] = import_paths tmpl))"
    by (auto simp: TextTemplate_def)
  then show ?thesis by (intro exI)
next
  case (Inr tmpl)
  assume tt: "TextTemplate Parse s data g = (r, g')"
  obtain r1 buff g1 where ex: "Execute tmpl data [] [] g = (r1, buff, g1)"
    by (metis prod_cases3)
  from Execute_imports [OF ex] obtain paths where
    p: "prefix paths (import_paths tmpl)" "g1 = foldl import_step g paths"
       "r1 = None \<longrightarrow> paths = import_paths tmpl"
    by (elim exE conjE)
  from tt Inr ex have g': "g' = g1" and r: "snd r = r1"
    by (auto simp: TextTemplate_def split: option.splits)
  from p g' r Inr have "g' = foldl import_step g paths \<and>
     prefix paths (case Parse s of Inl err \<Rightarrow> [] | Inr tmpl \<Rightarrow> import_paths tmpl) \<and>
     (snd r = None \<longrightarrow> (\<exists>tmpl. Parse s = Inr tmpl \<and> paths = import_paths tmpl))"
    by simp
  then show ?thesis by (intro exI)
qed


subsection \<open>Evaluating the examples\<close>

lemmas example_defs = example_Parse_def example_ParseFile_def type_template_def
  two_types_template_def import_missing_template_def import_unclosed_template_def
  method_template_def import_strings_template_def package_template_def name_is_def header_def

lemmas run_defs = DeclareFromTemplate_def renderTemplate_def TextTemplate_def
  recordDecl_def recordGenDeclNames_def Reserve_def is_free_def go_keywords_def appendDecl_def
  NewGenerator_def could_not_parse_def

lemmas import_defs = Import_def NewName_def fresh_name_def alias_of_path_def
  ident_char_def lower_char_def is_digit_def Let_def

section \<open>A name collision in the middle of a fragment\<close>




section \<open>A template that does not render\<close>




section \<open>A fragment that does not parse\<close>

lemma TextTemplate_ok_renderTemplate:
  "TextTemplate Parse s data g = ((out, None), g') \<Longrightarrow>
   renderTemplate Parse s data g = (Inr (header @ out), g')"
  by (simp add: renderTemplate_def)

lemma declareDecls_methods:
  "\<forall>d \<in> set ds. is_method d \<Longrightarrow> declareDecls ds g = (None, g\<lparr>decls := decls g @ ds\<rparr>)"
proof (induction ds arbitrary: g)
  case Nil
  then show ?case by simp
next
  case (Cons d ds)
  from Cons.prems have "is_method d" by simp
  then have r: "recordDecl d g = (None, g)"
    by (auto simp: is_method_def recordDecl_def split: Decl.splits option.splits)
  from Cons.prems have "\<forall>d \<in> set ds. is_method d" by simp
  from Cons.IH [OF this, of "appendDecl d g"] r show ?case
    by (simp add: appendDecl_def)
qed




section \<open>What the parser is given\<close>

lemma example_ParseFile_one_package_clause: "one_package_clause example_ParseFile"
  by (simp add: one_package_clause_def example_ParseFile_def)

text \<open>
  C9.  When rendering succeeds, the text handed to the parser is the header
  \<^verbatim>\<open>package thriftrw\<close> and two newlines followed by the rendered text, and the outcome of
  DeclareFromTemplate is decided by the parser on that text.  Hence, with a parser that
  follows Go's grammar in rejecting a second package clause after the header, a
  rendered text that begins with a package clause is never accepted.
\<close>

theorem parser_input_is_header_and_output:
  assumes "TextTemplate Parse s data g = ((out, None), g')"
  shows "renderTemplate Parse s data g = (Inr (header @ out), g') \<and>
         header = ''package thriftrw'' @ [CHR 0x0A, CHR 0x0A] \<and>
         DeclareFromTemplate Parse ParseFile s data g
           = (case ParseFile (header @ out) of
                Inl diag \<Rightarrow> (Some (CouldNotParse (could_not_parse diag (header @ out))), g')
              | Inr ds \<Rightarrow> declareDecls ds g') \<and>
         (one_package_clause ParseFile \<longrightarrow>
            (\<forall>src. out = ''package '' @ src \<longrightarrow>
               fst (DeclareFromTemplate Parse ParseFile s data g) \<noteq> None \<and>
               decls (snd (DeclareFromTemplate Parse ParseFile s data g)) = decls g))"
proof -
  note rt = TextTemplate_ok_renderTemplate [OF assms]
  have 1: "header = ''package thriftrw'' @ [CHR 0x0A, CHR 0x0A]" by (simp add: header_def)
  have 2: "DeclareFromTemplate Parse ParseFile s data g
           = (case ParseFile (header @ out) of
                Inl diag \<Rightarrow> (Some (CouldNotParse (could_not_parse diag (header @ out))), g')
              | Inr ds \<Rightarrow> declareDecls ds g')"
    using rt by (simp add: DeclareFromTemplate_def)
  have d: "decls g' = decls g"
    using TextTemplate_only_reserves [OF assms] by (rule only_reserves_decls)
  have 3: "one_package_clause ParseFile \<longrightarrow>
            (\<forall>src. out = ''package '' @ src \<longrightarrow>
               fst (DeclareFromTemplate Parse ParseFile s data g) \<noteq> None \<and>
               decls (snd (DeclareFromTemplate Parse ParseFile s data g)) = decls g)"
  proof (intro impI allI)
    fix src
    assume o: "one_package_clause ParseFile" and src: "out = ''package '' @ src"
    from o src have "isl (ParseFile (header @ out))" by (simp add: one_package_clause_def)
    then obtain diag where "ParseFile (header @ out) = Inl diag" by (cases "ParseFile (header @ out)") auto
    with 2 d show "fst (DeclareFromTemplate Parse ParseFile s data g) \<noteq> None \<and>
               decls (snd (DeclareFromTemplate Parse ParseFile s data g)) = decls g"
      by simp
  qed
  from rt 1 2 3 show ?thesis by (intro conjI)
qed

theorem parser_input_is_header_and_output_witness:
  "TextTemplate example_Parse package_template (name_is ''foo'') NewGenerator
     = ((''package foo'', None), NewGenerator) \<and>
   one_package_clause example_ParseFile \<and>
   renderTemplate example_Parse package_template (name_is ''foo'') NewGenerator
     = (Inr (header @ ''package foo''), NewGenerator) \<and>
   fst (DeclareFromTemplate example_Parse example_ParseFile package_template (name_is ''foo'')
          NewGenerator) \<noteq> None"
proof -
  have h: "TextTemplate example_Parse package_template (name_is ''foo'') NewGenerator
     = ((''package foo'', None), NewGenerator)"
    by (simp add: example_defs run_defs)
  note o = example_ParseFile_one_package_clause
  note t = parser_input_is_header_and_output [OF h, of example_ParseFile]
  from t have a: "renderTemplate example_Parse package_template (name_is ''foo'') NewGenerator
          = (Inr (header @ ''package foo''), NewGenerator)"
    by (elim conjE)
  from t have "one_package_clause example_ParseFile \<longrightarrow>
      (\<forall>src. ''package foo'' = ''package '' @ src \<longrightarrow>
         fst (DeclareFromTemplate example_Parse example_ParseFile package_template
                (name_is ''foo'') NewGenerator) \<noteq> None \<and>
         decls (snd (DeclareFromTemplate example_Parse example_ParseFile package_template
                (name_is ''foo'') NewGenerator)) = decls NewGenerator)"
    by (elim conjE)
  from this o have "\<forall>src. ''package foo'' = ''package '' @ src \<longrightarrow>
         fst (DeclareFromTemplate example_Parse example_ParseFile package_template
                (name_is ''foo'') NewGenerator) \<noteq> None \<and>
         decls (snd (DeclareFromTemplate example_Parse example_ParseFile package_template
                (name_is ''foo'') NewGenerator)) = decls NewGenerator"
    by (rule mp)
  then have "''package foo'' = ''package '' @ ''foo'' \<longrightarrow>
         fst (DeclareFromTemplate example_Parse example_ParseFile package_template
                (name_is ''foo'') NewGenerator) \<noteq> None \<and>
         decls (snd (DeclareFromTemplate example_Parse example_ParseFile package_template
                (name_is ''foo'') NewGenerator)) = decls NewGenerator"
    by (rule spec)
  then have b: "fst (DeclareFromTemplate example_Parse example_ParseFile package_template
          (name_is ''foo'') NewGenerator) \<noteq> None"
    by simp
  note a b
  with h o show ?thesis by (intro conjI)
qed

section \<open>Methods\<close>

text \<open>
  C8.  A function declaration with a receiver is recorded without reserving a name, in
  every state.  So a fragment that holds only methods is accepted whatever names are
  taken, and its declarations are appended with the symbol table left as rendering left
  it: two fragments that each define a method of the same name are both accepted.
\<close>

theorem methods_reserve_no_name:
  assumes "renderTemplate Parse s data g = (Inr bs, g1)" and "ParseFile bs = Inr ds"
    and "\<forall>d \<in> set ds. is_method d"
  shows "DeclareFromTemplate Parse ParseFile s data g = (None, g1\<lparr>decls := decls g @ ds\<rparr>) \<and>
         taken (g1\<lparr>decls := decls g @ ds\<rparr>) = taken g1 \<and>
         (\<forall>d \<in> set ds. \<forall>g0. recordDecl d g0 = (None, g0))"
proof -
  have d: "decls g1 = decls g"
    using renderTemplate_only_reserves [OF assms(1)] by (rule only_reserves_decls)
  have 1: "DeclareFromTemplate Parse ParseFile s data g = (None, g1\<lparr>decls := decls g @ ds\<rparr>)"
    using assms(1,2) declareDecls_methods [OF assms(3), of g1] d
    by (simp add: DeclareFromTemplate_def)
  have 3: "\<forall>d \<in> set ds. \<forall>g0. recordDecl d g0 = (None, g0)"
    using assms(3)
    by (auto simp: is_method_def recordDecl_def split: Decl.splits option.splits)
  from 1 3 show ?thesis by simp
qed

theorem methods_reserve_no_name_witness:
  "DeclareAll example_Parse example_ParseFile
     [(method_template, name_is ''Foo''), (method_template, name_is ''Bar'')] NewGenerator
     = (None, NewGenerator\<lparr>decls := [FuncD (FuncDecl (Some ''Foo'') ''String''),
                                      FuncD (FuncDecl (Some ''Bar'') ''String'')]\<rparr>) \<and>
   renderTemplate example_Parse method_template (name_is ''Bar'')
     (NewGenerator\<lparr>decls := [FuncD (FuncDecl (Some ''Foo'') ''String'')]\<rparr>)
     = (Inr (header @ ''func (v Bar) String() string''),
        NewGenerator\<lparr>decls := [FuncD (FuncDecl (Some ''Foo'') ''String'')]\<rparr>) \<and>
   example_ParseFile (header @ ''func (v Bar) String() string'')
     = Inr [FuncD (FuncDecl (Some ''Bar'') ''String'')] \<and>
   is_method (FuncD (FuncDecl (Some ''Bar'') ''String'')) \<and>
   DeclareFromTemplate example_Parse example_ParseFile method_template (name_is ''Bar'')
     (NewGenerator\<lparr>decls := [FuncD (FuncDecl (Some ''Foo'') ''String'')]\<rparr>)
     = (None, NewGenerator\<lparr>decls := [FuncD (FuncDecl (Some ''Foo'') ''String''),
                                      FuncD (FuncDecl (Some ''Bar'') ''String'')]\<rparr>)"
proof -
  let ?g1 = "NewGenerator\<lparr>decls := [FuncD (FuncDecl (Some ''Foo'') ''String'')]\<rparr>"
  have h1: "renderTemplate example_Parse method_template (name_is ''Bar'') ?g1
     = (Inr (header @ ''func (v Bar) String() string''), ?g1)"
    by (simp add: example_defs run_defs)
  have h2: "example_ParseFile (header @ ''func (v Bar) String() string'')
     = Inr [FuncD (FuncDecl (Some ''Bar'') ''String'')]"
    by (simp add: example_defs)
  have h3: "\<forall>d \<in> set [FuncD (FuncDecl (Some ''Bar'') ''String'')]. is_method d"
    by (simp add: is_method_def)
  from methods_reserve_no_name [where ParseFile = example_ParseFile, OF h1 h2 h3]
  have c: "DeclareFromTemplate example_Parse example_ParseFile method_template (name_is ''Bar'')
      ?g1 = (None, NewGenerator\<lparr>decls := [FuncD (FuncDecl (Some ''Foo'') ''String''),
                                      FuncD (FuncDecl (Some ''Bar'') ''String'')]\<rparr>)"
    by (simp add: NewGenerator_def)
  have first: "DeclareFromTemplate example_Parse example_ParseFile method_template
      (name_is ''Foo'') NewGenerator = (None, ?g1)"
    by (simp add: example_defs run_defs)
  have all: "DeclareAll example_Parse example_ParseFile
     [(method_template, name_is ''Foo''), (method_template, name_is ''Bar'')] NewGenerator
     = (None, NewGenerator\<lparr>decls := [FuncD (FuncDecl (Some ''Foo'') ''String''),
                                      FuncD (FuncDecl (Some ''Bar'') ''String'')]\<rparr>)"
    using first c by simp
  from h3 have m: "is_method (FuncD (FuncDecl (Some ''Bar'') ''String''))" by simp
  from all h1 h2 m c show ?thesis by (intro conjI)
qed

section \<open>The order of the written declarations\<close>

lemma DeclareFromTemplate_success:
  assumes "DeclareFromTemplate Parse ParseFile s data g = (None, g')"
  obtains bs g1 ds where "renderTemplate Parse s data g = (Inr bs, g1)"
    and "ParseFile bs = Inr ds" and "declareDecls ds g1 = (None, g')"
    and "decls g' = decls g @ ds"
proof (cases Parse ParseFile s data g rule: DeclareFromTemplate_cases)
  case (render_error e g1)
  with assms show ?thesis by simp
next
  case (parse_error bs g1 diag)
  with assms show ?thesis by simp
next
  case (parsed bs g1 ds)
  with assms have run: "declareDecls ds g1 = (None, g')" by simp
  have "decls g1 = decls g"
    using renderTemplate_only_reserves [OF parsed(1)] by (rule only_reserves_decls)
  with declareDecls_success [OF run] have "decls g' = decls g @ ds" by simp
  with parsed(1,2) run show ?thesis by (rule that)
qed

lemma DeclareAll_decls:
  "DeclareAll Parse ParseFile calls g = (None, g') \<Longrightarrow>
   decls g' = decls g @ concat (fragments Parse ParseFile calls g)"
proof (induction calls arbitrary: g)
  case Nil
  then show ?case by simp
next
  case (Cons call calls)
  obtain r1 g1 where c: "DeclareFromTemplate Parse ParseFile (fst call) (snd call) g = (r1, g1)"
    by fastforce
  with Cons.prems have none: "r1 = None" by (cases r1) simp_all
  with c Cons.prems have rest: "DeclareAll Parse ParseFile calls g1 = (None, g')" by simp
  from c none obtain bs ga ds where
    s: "renderTemplate Parse (fst call) (snd call) g = (Inr bs, ga)" "ParseFile bs = Inr ds"
       "declareDecls ds ga = (None, g1)" "decls g1 = decls g @ ds"
    by (auto elim: DeclareFromTemplate_success)
  from s(1-3) have "fragments Parse ParseFile (call # calls) g
      = ds # fragments Parse ParseFile calls g1"
    by simp
  with Cons.IH [OF rest] s(4) show ?case by simp
qed

text \<open>
  C3.  After a sequence of calls of DeclareFromTemplate that all succeed, the file that
  Write builds and hands to the formatter holds the declarations accepted before the
  sequence, then the declarations of each call's fragment, call after call and in the
  order in which the parser gave them, with nothing dropped or moved.  Only the import
  block of the registry comes before them, and only when the registry is not empty.
\<close>

theorem Write_keeps_acceptance_order:
  assumes "DeclareAll Parse ParseFile calls g = (None, g')"
  shows "Decls (Write_file g')
           = (case importDecl g' of None \<Rightarrow> [] | Some d \<Rightarrow> [d])
               @ decls g @ concat (fragments Parse ParseFile calls g) \<and>
         Write format_Node g' = format_Node (Write_file g') \<and>
         (importDecl g' = None \<longleftrightarrow> registry g' = [])"
proof -
  have 1: "Decls (Write_file g')
           = (case importDecl g' of None \<Rightarrow> [] | Some d \<Rightarrow> [d])
               @ decls g @ concat (fragments Parse ParseFile calls g)"
    using DeclareAll_decls [OF assms] by (simp add: Write_file_def)
  have 2: "Write format_Node g' = format_Node (Write_file g')" by (simp add: Write_def)
  have 3: "importDecl g' = None \<longleftrightarrow> registry g' = []" by (simp add: importDecl_def)
  from 1 2 3 show ?thesis by (intro conjI)
qed

theorem Write_keeps_acceptance_order_witness:
  "DeclareAll example_Parse example_ParseFile
     [(type_template, name_is ''Foo''), (type_template, name_is ''Bar'')] NewGenerator
     = (None, NewGenerator\<lparr>taken := [''Foo'', ''Bar''],
          decls := [GenD (GenDecl T_TYPE [TypeS ''Foo'']), GenD (GenDecl T_TYPE [TypeS ''Bar''])]\<rparr>) \<and>
   Decls (Write_file (NewGenerator\<lparr>taken := [''Foo'', ''Bar''],
          decls := [GenD (GenDecl T_TYPE [TypeS ''Foo'']), GenD (GenDecl T_TYPE [TypeS ''Bar''])]\<rparr>))
     = [GenD (GenDecl T_TYPE [TypeS ''Foo'']), GenD (GenDecl T_TYPE [TypeS ''Bar''])]"
proof -
  let ?g = "NewGenerator\<lparr>taken := [''Foo'', ''Bar''],
          decls := [GenD (GenDecl T_TYPE [TypeS ''Foo'']), GenD (GenDecl T_TYPE [TypeS ''Bar''])]\<rparr>"
  let ?calls = "[(type_template, name_is ''Foo''), (type_template, name_is ''Bar'')]"
  have h: "DeclareAll example_Parse example_ParseFile ?calls NewGenerator = (None, ?g)"
    by (simp add: example_defs run_defs)
  have f: "concat (fragments example_Parse example_ParseFile ?calls NewGenerator)
      = [GenD (GenDecl T_TYPE [TypeS ''Foo'']), GenD (GenDecl T_TYPE [TypeS ''Bar''])]"
    by (simp add: example_defs run_defs)
  have i: "importDecl ?g = None" by (simp add: importDecl_def NewGenerator_def)
  from Write_keeps_acceptance_order [OF h]
  have "Decls (Write_file ?g)
      = (case importDecl ?g of None \<Rightarrow> [] | Some d \<Rightarrow> [d]) @ decls NewGenerator
          @ concat (fragments example_Parse example_ParseFile ?calls NewGenerator)"
    by (rule conjunct1)
  with f i have "Decls (Write_file ?g)
      = [GenD (GenDecl T_TYPE [TypeS ''Foo'']), GenD (GenDecl T_TYPE [TypeS ''Bar''])]"
    by (simp add: NewGenerator_def)
  with h show ?thesis by (intro conjI)
qed

section \<open>Uniqueness of the declared names\<close>

text \<open>
  C5.  In every state that a new generator reaches by calls of DeclareFromTemplate,
  failed ones included, the top-level names of the accepted declarations are pairwise
  different and all reserved in the root scope.  In particular, when a call was accepted
  with a fragment that declares the type \<open>n\<close>, a later call whose fragment declares the
  type \<open>n\<close> again fails with the name collision on \<open>n\<close> and appends nothing, so that \<open>n\<close> is
  declared once.
\<close>

theorem accepted_names_are_unique:
  "distinct (declared_names (decls (foldl (declare_step Parse ParseFile) NewGenerator calls))) \<and>
   set (declared_names (decls (foldl (declare_step Parse ParseFile) NewGenerator calls)))
     \<subseteq> set (taken (foldl (declare_step Parse ParseFile) NewGenerator calls)) \<and>
   (DeclareFromTemplate Parse ParseFile s1 d1 g = (None, g1) \<and>
    decls g1 = decls g @ [GenD (GenDecl T_TYPE [TypeS n])] \<and>
    renderTemplate Parse s2 d2 g1 = (Inr bs2, g2) \<and>
    ParseFile bs2 = Inr [GenD (GenDecl T_TYPE [TypeS n])] \<longrightarrow>
      DeclareFromTemplate Parse ParseFile s2 d2 g1
        = (Some (CouldNotDeclareType n (NameCollisionError n)), g2) \<and>
      decls g2 = decls g @ [GenD (GenDecl T_TYPE [TypeS n])] \<and>
      (uniquely_declared g \<longrightarrow> count_list (declared_names (decls g2)) n = 1))"
proof -
  let ?G = "foldl (declare_step Parse ParseFile) NewGenerator calls"
  let ?D = "GenD (GenDecl T_TYPE [TypeS n])"
  have "uniquely_declared ?G"
    using uniquely_declared_NewGenerator by (rule foldl_declare_step_uniquely_declared)
  then have 1: "distinct (declared_names (decls ?G))"
    and 2: "set (declared_names (decls ?G)) \<subseteq> set (taken ?G)"
    by (simp_all add: uniquely_declared_def)
  have 3: "DeclareFromTemplate Parse ParseFile s2 d2 g1
        = (Some (CouldNotDeclareType n (NameCollisionError n)), g2) \<and>
      decls g2 = decls g @ [?D] \<and>
      (uniquely_declared g \<longrightarrow> count_list (declared_names (decls g2)) n = 1)"
    if first: "DeclareFromTemplate Parse ParseFile s1 d1 g = (None, g1)"
      and d1: "decls g1 = decls g @ [?D]"
      and render: "renderTemplate Parse s2 d2 g1 = (Inr bs2, g2)"
      and parse: "ParseFile bs2 = Inr [?D]"
  proof -
    from first obtain bs ga ds where
      s: "declareDecls ds ga = (None, g1)" "decls g1 = decls g @ ds"
      by (auto elim: DeclareFromTemplate_success)
    from s(2) d1 have "ds = [?D]" by simp
    with declareDecls_success [OF s(1)] have "n \<in> set (taken g1)" by simp
    with only_reserves_taken [OF renderTemplate_only_reserves [OF render]]
    have tk: "n \<in> set (taken g2)" by blast
    have a: "DeclareFromTemplate Parse ParseFile s2 d2 g1
        = (Some (CouldNotDeclareType n (NameCollisionError n)), g2)"
      using render parse tk
      by (simp add: DeclareFromTemplate_def recordDecl_def recordGenDeclNames_def
          Reserve_def is_free_def)
    have b: "decls g2 = decls g @ [?D]"
      using only_reserves_decls [OF renderTemplate_only_reserves [OF render]] d1 by simp
    have c: "count_list (declared_names (decls g2)) n = 1" if u: "uniquely_declared g"
    proof -
      from u have "uniquely_declared g1"
        using DeclareFromTemplate_uniquely_declared [OF u, of Parse ParseFile s1 d1] first
        by simp
      with d1 have "n \<notin> set (declared_names (decls g))"
        by (simp add: uniquely_declared_def)
      then have "count_list (declared_names (decls g)) n = 0" by (simp add: count_list_0_iff)
      with b show ?thesis by simp
    qed
    from a b c show ?thesis by (intro conjI impI)
  qed
  then have 4: "DeclareFromTemplate Parse ParseFile s1 d1 g = (None, g1) \<and>
    decls g1 = decls g @ [?D] \<and>
    renderTemplate Parse s2 d2 g1 = (Inr bs2, g2) \<and>
    ParseFile bs2 = Inr [?D] \<longrightarrow>
      DeclareFromTemplate Parse ParseFile s2 d2 g1
        = (Some (CouldNotDeclareType n (NameCollisionError n)), g2) \<and>
      decls g2 = decls g @ [?D] \<and>
      (uniquely_declared g \<longrightarrow> count_list (declared_names (decls g2)) n = 1)"
    by blast
  from 1 2 4 show ?thesis by (intro conjI)
qed

theorem accepted_names_are_unique_witness:
  "DeclareFromTemplate example_Parse example_ParseFile type_template (name_is ''Foo'') NewGenerator
     = (None, NewGenerator\<lparr>taken := [''Foo''],
          decls := [GenD (GenDecl T_TYPE [TypeS ''Foo''])]\<rparr>) \<and>
   DeclareFromTemplate example_Parse example_ParseFile type_template (name_is ''Foo'')
     (NewGenerator\<lparr>taken := [''Foo''], decls := [GenD (GenDecl T_TYPE [TypeS ''Foo''])]\<rparr>)
     = (Some (CouldNotDeclareType ''Foo'' (NameCollisionError ''Foo'')),
        NewGenerator\<lparr>taken := [''Foo''], decls := [GenD (GenDecl T_TYPE [TypeS ''Foo''])]\<rparr>) \<and>
   count_list (declared_names (decls
     (NewGenerator\<lparr>taken := [''Foo''], decls := [GenD (GenDecl T_TYPE [TypeS ''Foo''])]\<rparr>)))
     ''Foo'' = 1"
proof -
  let ?D = "GenD (GenDecl T_TYPE [TypeS ''Foo''])"
  let ?g1 = "NewGenerator\<lparr>taken := [''Foo''], decls := [?D]\<rparr>"
  have h1: "DeclareFromTemplate example_Parse example_ParseFile type_template (name_is ''Foo'')
      NewGenerator = (None, ?g1)"
    by (simp add: example_defs run_defs)
  have h2: "decls ?g1 = decls NewGenerator @ [?D]" by (simp add: NewGenerator_def)
  have h3: "renderTemplate example_Parse type_template (name_is ''Foo'') ?g1
      = (Inr (header @ ''type Foo int32''), ?g1)"
    by (simp add: example_defs run_defs)
  have h4: "example_ParseFile (header @ ''type Foo int32'') = Inr [?D]"
    by (simp add: example_defs)
  have u: "uniquely_declared NewGenerator" by (rule uniquely_declared_NewGenerator)
  note t = accepted_names_are_unique [where Parse = example_Parse
      and ParseFile = example_ParseFile and calls = "[]" and ?s1.0 = type_template
      and ?d1.0 = "name_is ''Foo''" and g = NewGenerator and ?g1.0 = ?g1 and n = "''Foo''"
      and ?s2.0 = type_template and ?d2.0 = "name_is ''Foo''"
      and ?bs2.0 = "header @ ''type Foo int32''" and ?g2.0 = ?g1]
  from t h1 h2 h3 h4 have
    a: "DeclareFromTemplate example_Parse example_ParseFile type_template (name_is ''Foo'') ?g1
          = (Some (CouldNotDeclareType ''Foo'' (NameCollisionError ''Foo'')), ?g1)"
    and b: "uniquely_declared NewGenerator \<longrightarrow>
          count_list (declared_names (decls ?g1)) ''Foo'' = 1"
    by blast+
  from b u have "count_list (declared_names (decls ?g1)) ''Foo'' = 1" by (rule mp)
  with h1 a show ?thesis by (intro conjI)
qed

section \<open>Literal imports\<close>

lemma declareDecls_append:
  "declareDecls pfx g = (None, g2) \<Longrightarrow> declareDecls (pfx @ ds) g = declareDecls ds g2"
proof (induction pfx arbitrary: g)
  case Nil
  then show ?case by simp
next
  case (Cons d pfx)
  obtain r1 g1 where r1: "recordDecl d g = (r1, g1)" by fastforce
  with Cons.prems have none: "r1 = None" by (cases r1) simp_all
  with r1 Cons.prems have "declareDecls pfx (appendDecl d g1) = (None, g2)" by simp
  from Cons.IH [OF this] r1 none show ?case by simp
qed

lemma import_specs_all_added:
  "all_added specs g \<Longrightarrow>
   import_specs (map ImportS specs) g = (None, foldl add_import_step g specs)"
proof (induction specs arbitrary: g)
  case Nil
  then show ?case by simp
next
  case (Cons spec specs)
  obtain r1 g1 where a: "AddImportSpec spec g = (r1, g1)" by fastforce
  with Cons.prems have "r1 = None" and "all_added specs g1" by simp_all
  moreover from a have "add_import_step g spec = g1" by (simp add: add_import_step_def)
  ultimately show ?case using Cons.IH [of g1] a by simp
qed

lemma import_specs_first_failure:
  "all_added pre g \<Longrightarrow> AddImportSpec spec (foldl add_import_step g pre) = (Some err, g3) \<Longrightarrow>
   import_specs (map ImportS (pre @ spec # post)) g = (Some (CouldNotAddImport spec err), g3)"
proof (induction pre arbitrary: g)
  case Nil
  then show ?case by simp
next
  case (Cons p pre)
  obtain r1 g1 where a: "AddImportSpec p g = (r1, g1)" by fastforce
  with Cons.prems(1) have n: "r1 = None" and rest: "all_added pre g1" by simp_all
  from a have "add_import_step g p = g1" by (simp add: add_import_step_def)
  with Cons.prems(2) have "AddImportSpec spec (foldl add_import_step g1 pre) = (Some err, g3)"
    by simp
  from Cons.IH [OF rest this] a n show ?case by simp
qed

lemma all_added_or_failure:
  "all_added specs g \<or>
   (\<exists>pre spec post. specs = pre @ spec # post \<and> all_added pre g \<and>
      fst (AddImportSpec spec (foldl add_import_step g pre)) \<noteq> None)"
proof (induction specs arbitrary: g)
  case Nil
  then show ?case by simp
next
  case (Cons p specs)
  show ?case
  proof (cases "fst (AddImportSpec p g) = None")
    case False
    then have "p # specs = [] @ p # specs \<and> all_added [] g \<and>
        fst (AddImportSpec p (foldl add_import_step g [])) \<noteq> None"
      by simp
    then show ?thesis by blast
  next
    case True
    let ?g1 = "snd (AddImportSpec p g)"
    from Cons.IH [of ?g1] show ?thesis
    proof
      assume "all_added specs ?g1"
      with True show ?thesis by simp
    next
      assume "\<exists>pre spec post. specs = pre @ spec # post \<and> all_added pre ?g1 \<and>
          fst (AddImportSpec spec (foldl add_import_step ?g1 pre)) \<noteq> None"
      then obtain pre spec post where
        f: "specs = pre @ spec # post" "all_added pre ?g1"
           "fst (AddImportSpec spec (foldl add_import_step ?g1 pre)) \<noteq> None"
        by (elim exE conjE)
      moreover have "add_import_step g p = ?g1" by (simp add: add_import_step_def)
      ultimately have "p # specs = (p # pre) @ spec # post \<and> all_added (p # pre) g \<and>
          fst (AddImportSpec spec (foldl add_import_step g (p # pre))) \<noteq> None"
        using True by simp
      then show ?thesis by blast
    qed
  qed
qed

text \<open>
  C6.  A literal import declaration of an accepted fragment is recorded by AddImportSpec,
  applied to its specs one after the other, each once: when every spec is added, the
  state is the one after adding each spec in order, and the loop goes on with the
  declaration appended.  When adding a spec fails, the first such failure ends the whole
  call of DeclareFromTemplate with an error that holds that spec and the error of
  AddImportSpec.  One of the two always happens.
\<close>

theorem explicit_imports_reconciled:
  assumes "renderTemplate Parse s data g = (Inr bs, g1)"
    and "ParseFile bs = Inr (pfx @ GenD (GenDecl T_IMPORT (map ImportS specs)) # rest)"
    and "declareDecls pfx g1 = (None, g2)"
  shows "(all_added specs g2 \<longrightarrow>
            DeclareFromTemplate Parse ParseFile s data g
              = declareDecls rest
                  (appendDecl (GenD (GenDecl T_IMPORT (map ImportS specs)))
                     (foldl add_import_step g2 specs))) \<and>
         (\<forall>pre spec post err g3.
            specs = pre @ spec # post \<and> all_added pre g2 \<and>
            AddImportSpec spec (foldl add_import_step g2 pre) = (Some err, g3) \<longrightarrow>
              DeclareFromTemplate Parse ParseFile s data g
                = (Some (CouldNotAddImport spec err), g3)) \<and>
         (all_added specs g2 \<or>
            (\<exists>pre spec post. specs = pre @ spec # post \<and> all_added pre g2 \<and>
               fst (AddImportSpec spec (foldl add_import_step g2 pre)) \<noteq> None))"
proof -
  let ?D = "GenD (GenDecl T_IMPORT (map ImportS specs))"
  have run: "DeclareFromTemplate Parse ParseFile s data g = declareDecls (?D # rest) g2"
    using assms(1,2) declareDecls_append [OF assms(3), of "?D # rest"]
    by (simp add: DeclareFromTemplate_def)
  have rec: "recordDecl ?D g2 = import_specs (map ImportS specs) g2"
    by (simp add: recordDecl_def recordGenDeclNames_def)
  have 1: "all_added specs g2 \<longrightarrow>
            DeclareFromTemplate Parse ParseFile s data g
              = declareDecls rest (appendDecl ?D (foldl add_import_step g2 specs))"
  proof
    assume "all_added specs g2"
    from import_specs_all_added [OF this] rec run
    show "DeclareFromTemplate Parse ParseFile s data g
              = declareDecls rest (appendDecl ?D (foldl add_import_step g2 specs))"
      by simp
  qed
  have 2: "\<forall>pre spec post err g3.
            specs = pre @ spec # post \<and> all_added pre g2 \<and>
            AddImportSpec spec (foldl add_import_step g2 pre) = (Some err, g3) \<longrightarrow>
              DeclareFromTemplate Parse ParseFile s data g
                = (Some (CouldNotAddImport spec err), g3)"
  proof (intro allI impI)
    fix pre spec post err g3
    assume a: "specs = pre @ spec # post \<and> all_added pre g2 \<and>
            AddImportSpec spec (foldl add_import_step g2 pre) = (Some err, g3)"
    then have "import_specs (map ImportS (pre @ spec # post)) g2
        = (Some (CouldNotAddImport spec err), g3)"
      by (intro import_specs_first_failure) simp_all
    with a rec have "recordDecl ?D g2 = (Some (CouldNotAddImport spec err), g3)" by simp
    with run show "DeclareFromTemplate Parse ParseFile s data g
                = (Some (CouldNotAddImport spec err), g3)"
      by simp
  qed
  note 3 = all_added_or_failure [of specs g2]
  from 1 2 3 show ?thesis by (intro conjI)
qed

theorem explicit_imports_reconciled_witness:
  "renderTemplate example_Parse import_strings_template (name_is ''Foo'') strings_promised
     = (Inr (header @ ''import \"strings\"''), strings_promised) \<and>
   example_ParseFile (header @ ''import \"strings\"'')
     = Inr ([] @ GenD (GenDecl T_IMPORT (map ImportS [ImportSpec None ''strings''])) # []) \<and>
   declareDecls [] strings_promised = (None, strings_promised) \<and>
   all_added [] strings_promised \<and>
   AddImportSpec (ImportSpec None ''strings'') (foldl add_import_step strings_promised [])
     = (Some (DuplicateImportError ''strings'' ''strings''), strings_promised) \<and>
   DeclareFromTemplate example_Parse example_ParseFile import_strings_template (name_is ''Foo'')
     strings_promised
     = (Some (CouldNotAddImport (ImportSpec None ''strings'')
          (DuplicateImportError ''strings'' ''strings'')), strings_promised)"
proof -
  let ?i = "ImportSpec None ''strings''"
  have h1: "renderTemplate example_Parse import_strings_template (name_is ''Foo'')
      strings_promised = (Inr (header @ ''import \"strings\"''), strings_promised)"
    by (simp add: example_defs run_defs strings_promised_def)
  have h2: "example_ParseFile (header @ ''import \"strings\"'')
     = Inr ([] @ GenD (GenDecl T_IMPORT (map ImportS [?i])) # [])"
    by (simp add: example_defs)
  have h3: "declareDecls [] strings_promised = (None, strings_promised)" by simp
  have h4: "all_added [] strings_promised" by simp
  have h5: "AddImportSpec ?i (foldl add_import_step strings_promised [])
     = (Some (DuplicateImportError ''strings'' ''strings''), strings_promised)"
    by (simp add: AddImportSpec_def strings_promised_def NewGenerator_def import_defs)
  from explicit_imports_reconciled [where ParseFile = example_ParseFile, OF h1 h2 h3]
  have "\<forall>pre spec post err g3.
            [?i] = pre @ spec # post \<and> all_added pre strings_promised \<and>
            AddImportSpec spec (foldl add_import_step strings_promised pre) = (Some err, g3) \<longrightarrow>
              DeclareFromTemplate example_Parse example_ParseFile import_strings_template
                (name_is ''Foo'') strings_promised
                = (Some (CouldNotAddImport spec err), g3)"
    by (elim conjE)
  then have "[?i] = [] @ ?i # [] \<and> all_added [] strings_promised \<and>
            AddImportSpec ?i (foldl add_import_step strings_promised [])
              = (Some (DuplicateImportError ''strings'' ''strings''), strings_promised) \<longrightarrow>
              DeclareFromTemplate example_Parse example_ParseFile import_strings_template
                (name_is ''Foo'') strings_promised
                = (Some (CouldNotAddImport ?i (DuplicateImportError ''strings'' ''strings'')),
                   strings_promised)"
    by blast
  with h4 h5 have c: "DeclareFromTemplate example_Parse example_ParseFile import_strings_template
                (name_is ''Foo'') strings_promised
                = (Some (CouldNotAddImport ?i (DuplicateImportError ''strings'' ''strings'')),
                   strings_promised)"
    by simp
  from h1 h2 h3 h4 h5 c show ?thesis by (intro conjI)
qed

section \<open>Aliases of imports\<close>

subsection \<open>The import registry stays well formed\<close>

lemma registry_ok_NewGenerator: "registry_ok NewGenerator"
  by (simp add: registry_ok_def NewGenerator_def)

lemma registry_ok_taken_append:
  "registry_ok g \<Longrightarrow> registry_ok (g\<lparr>taken := taken g @ names\<rparr>)"
  by (auto simp: registry_ok_def)

lemma registry_ok_appendDecl: "registry_ok g \<Longrightarrow> registry_ok (appendDecl d g)"
  by (simp add: registry_ok_def appendDecl_def)

lemma suffixed_name_free: "is_free (suffixed_name pref tk i) tk"
  by (induction pref tk i rule: suffixed_name.induct) (subst suffixed_name.simps, simp)

lemma fresh_name_free: "is_free (fresh_name pref tk) tk"
  by (simp add: fresh_name_def suffixed_name_free)

lemma registry_ok_add:
  "registry_ok g \<Longrightarrow> name \<notin> snd ` set (registry g) \<Longrightarrow>
   registry_ok (g\<lparr>taken := taken g @ [name], registry := registry g @ [(path, name)]\<rparr>)"
  by (auto simp: registry_ok_def)

lemma Import_registry:
  assumes "Import path g = (al, g')"
  shows "map_of (registry g') path = Some al"
    and "registry_ok g \<Longrightarrow> registry_ok g'"
proof -
  show "map_of (registry g') path = Some al"
  proof (cases "map_of (registry g) path")
    case None
    with assms show ?thesis by (auto simp: Import_def NewName_def Let_def map_add_def)
  next
    case (Some a)
    with assms show ?thesis by (simp add: Import_def)
  qed
next
  assume ok: "registry_ok g"
  show "registry_ok g'"
  proof (cases "map_of (registry g) path")
    case (Some a)
    with assms ok show ?thesis by (simp add: Import_def)
  next
    case None
    let ?name = "fresh_name (alias_of_path path) (taken g)"
    from fresh_name_free [of "alias_of_path path" "taken g"]
    have "?name \<notin> set (taken g)" by (simp add: is_free_def)
    with ok have "?name \<notin> snd ` set (registry g)" by (auto simp: registry_ok_def)
    moreover from assms None have
      "g' = g\<lparr>taken := taken g @ [?name], registry := registry g @ [(path, ?name)]\<rparr>"
      by (auto simp: Import_def NewName_def Let_def)
    ultimately show ?thesis using ok by (simp add: registry_ok_add)
  qed
qed

lemma AddImportSpec_registry_ok:
  assumes "AddImportSpec spec g = (r, g')" and "registry_ok g"
  shows "registry_ok g'"
proof -
  let ?path = "ImpPath spec"
  let ?name = "case ImpName spec of Some n \<Rightarrow> n | None \<Rightarrow> alias_of_path ?path"
  show ?thesis
  proof (cases "map_of (registry g) ?path = None \<and> ?name \<notin> snd ` set (registry g) \<and>
      is_free ?name (taken g)")
    case True
    with assms(1) have
      "g' = g\<lparr>taken := taken g @ [?name], registry := registry g @ [(?path, ?name)]\<rparr>"
      by (simp add: AddImportSpec_def Reserve_def Let_def)
    with True assms(2) show ?thesis by (simp add: registry_ok_add)
  next
    case False
    with assms(1) have "g' = g"
      by (auto simp: AddImportSpec_def Reserve_def Let_def split: option.splits if_splits)
    with assms(2) show ?thesis by simp
  qed
qed

lemma import_specs_registry_ok:
  "import_specs specs g = (r, g') \<Longrightarrow> registry_ok g \<Longrightarrow> registry_ok g'"
proof (induction specs arbitrary: g)
  case Nil
  then show ?case by simp
next
  case (Cons spec specs)
  show ?case
  proof (cases spec)
    case (ImportS i)
    obtain r1 g1 where a: "AddImportSpec i g = (r1, g1)" by fastforce
    note ok1 = AddImportSpec_registry_ok [OF a Cons.prems(2)]
    show ?thesis
    proof (cases r1)
      case None
      with a ImportS Cons.prems have "import_specs specs g1 = (r, g')" by simp
      from Cons.IH [OF this ok1] show ?thesis .
    next
      case (Some e)
      with a ImportS Cons.prems ok1 show ?thesis by simp
    qed
  qed (use Cons.prems in auto)
qed

lemma recordDecl_registry_ok:
  assumes "recordDecl decl g = (r, g')" and "registry_ok g"
  shows "registry_ok g'"
proof (cases decl)
  case (FuncD d)
  with assms show ?thesis
    by (auto simp: recordDecl_def Reserve_def registry_ok_taken_append
        split: option.splits if_splits)
next
  case (GenD d)
  with assms(1) have rec: "recordGenDeclNames d g = (r, g')" by (simp add: recordDecl_def)
  show ?thesis
  proof (cases "Tok d")
    case T_IMPORT
    with rec have "import_specs (Specs d) g = (r, g')" by (simp add: recordGenDeclNames_def)
    then show ?thesis using assms(2) by (rule import_specs_registry_ok)
  next
    case T_CONST
    with rec have "value_specs CouldNotDeclareConstant (Specs d) g = (r, g')"
      by (simp add: recordGenDeclNames_def)
    from value_specs_result [OF this] assms(2) show ?thesis
      by (auto simp: registry_ok_taken_append)
  next
    case T_VAR
    with rec have "value_specs CouldNotDeclareVar (Specs d) g = (r, g')"
      by (simp add: recordGenDeclNames_def)
    from value_specs_result [OF this] assms(2) show ?thesis
      by (auto simp: registry_ok_taken_append)
  next
    case T_TYPE
    with rec have "type_specs (Specs d) g = (r, g')" by (simp add: recordGenDeclNames_def)
    from type_specs_result [OF this] assms(2) show ?thesis
      by (auto simp: registry_ok_taken_append)
  next
    case (T_other n)
    with rec assms(2) show ?thesis by (simp add: recordGenDeclNames_def)
  qed
next
  case BadDecl
  with assms show ?thesis by (simp add: recordDecl_def)
qed

lemma declareDecls_registry_ok:
  "declareDecls ds g = (r, g') \<Longrightarrow> registry_ok g \<Longrightarrow> registry_ok g'"
proof (induction ds arbitrary: g)
  case Nil
  then show ?case by simp
next
  case (Cons d ds)
  obtain r1 g1 where r1: "recordDecl d g = (r1, g1)" by fastforce
  note ok1 = recordDecl_registry_ok [OF r1 Cons.prems(2)]
  show ?case
  proof (cases r1)
    case (Some e)
    with r1 Cons.prems ok1 show ?thesis by simp
  next
    case None
    with r1 Cons.prems have "declareDecls ds (appendDecl d g1) = (r, g')" by simp
    from Cons.IH [OF this registry_ok_appendDecl [OF ok1]] show ?thesis .
  qed
qed

lemma foldl_import_step_registry_ok:
  "registry_ok g \<Longrightarrow> registry_ok (foldl import_step g paths)"
proof (induction paths arbitrary: g)
  case Nil
  then show ?case by simp
next
  case (Cons p paths)
  obtain al g1 where i: "Import p g = (al, g1)" by fastforce
  from Import_registry(2) [OF i Cons.prems] have "registry_ok (import_step g p)"
    using i by (simp add: import_step_def)
  from Cons.IH [OF this] show ?case by simp
qed

lemma DeclareFromTemplate_registry_ok:
  assumes "registry_ok g"
  shows "registry_ok (snd (DeclareFromTemplate Parse ParseFile s data g))"
proof -
  have ok1: "registry_ok g1" if "renderTemplate Parse s data g = (r, g1)" for r g1
  proof -
    have "snd (TextTemplate Parse s data g) = g1"
      using that by (auto simp: renderTemplate_def split: prod.splits option.splits)
    then have "TextTemplate Parse s data g = (fst (TextTemplate Parse s data g), g1)"
      by (simp add: prod_eq_iff)
    from TextTemplate_imports [OF this] obtain paths where "g1 = foldl import_step g paths"
      by (elim exE conjE)
    with assms show ?thesis by (simp add: foldl_import_step_registry_ok)
  qed
  show ?thesis
  proof (cases Parse ParseFile s data g rule: DeclareFromTemplate_cases)
    case (render_error e g1)
    with ok1 show ?thesis by simp
  next
    case (parse_error bs g1 diag)
    with ok1 show ?thesis by simp
  next
    case (parsed bs g1 ds)
    obtain r2 g2 where dd: "declareDecls ds g1 = (r2, g2)" by fastforce
    from declareDecls_registry_ok [OF dd ok1 [OF parsed(1)]] parsed(3) dd show ?thesis by simp
  qed
qed

lemma foldl_declare_step_registry_ok:
  "registry_ok g \<Longrightarrow> registry_ok (foldl (declare_step Parse ParseFile) g calls)"
  by (induction calls arbitrary: g)
     (simp_all add: declare_step_def DeclareFromTemplate_registry_ok)

text \<open>
  C7.  Import is idempotent for every path in every state: the second call returns the
  alias of the first and changes nothing.  In a state whose registry is well formed (its
  aliases pairwise different and reserved), two different paths get different aliases;
  and every state that a new generator reaches by calls of DeclareFromTemplate has a
  well-formed registry.
\<close>

theorem Import_idempotent_and_injective:
  "Import p (snd (Import p g)) = Import p g \<and>
   (registry_ok g \<longrightarrow> p \<noteq> q \<longrightarrow> fst (Import q (snd (Import p g))) \<noteq> fst (Import p g)) \<and>
   registry_ok (foldl (declare_step Parse ParseFile) NewGenerator calls)"
proof -
  obtain a g1 where i1: "Import p g = (a, g1)" by fastforce
  note m1 = Import_registry(1) [OF i1]
  then have 1: "Import p (snd (Import p g)) = Import p g"
    using i1 by (simp add: Import_def)
  have 2: "fst (Import q (snd (Import p g))) \<noteq> fst (Import p g)"
    if ok: "registry_ok g" and ne: "p \<noteq> q"
  proof -
    obtain b g2 where i2: "Import q g1 = (b, g2)" by fastforce
    note ok1 = Import_registry(2) [OF i1 ok]
    note ok2 = Import_registry(2) [OF i2 ok1]
    from m1 have "(p, a) \<in> set (registry g1)" by (rule map_of_SomeD)
    with only_reserves_registry [OF Import_only_reserves [OF i2]]
    have pa: "(p, a) \<in> set (registry g2)" by blast
    from Import_registry(1) [OF i2] have qb: "(q, b) \<in> set (registry g2)"
      by (rule map_of_SomeD)
    from ok2 have "inj_on snd (set (registry g2))"
      by (simp add: registry_ok_def distinct_map)
    from inj_onD [OF this _ pa qb] ne have "a \<noteq> b" by auto
    with i1 i2 show ?thesis by simp
  qed
  have 3: "registry_ok (foldl (declare_step Parse ParseFile) NewGenerator calls)"
    using registry_ok_NewGenerator by (rule foldl_declare_step_registry_ok)
  from 1 2 3 show ?thesis by (intro conjI impI)
qed

theorem Import_idempotent_and_injective_witness:
  "registry_ok NewGenerator \<and> ''foo/bar'' \<noteq> ''baz/bar'' \<and>
   fst (Import ''foo/bar'' NewGenerator) = ''bar'' \<and>
   fst (Import ''baz/bar'' (snd (Import ''foo/bar'' NewGenerator))) = ''bar2'' \<and>
   fst (Import ''baz/bar'' (snd (Import ''foo/bar'' NewGenerator)))
     \<noteq> fst (Import ''foo/bar'' NewGenerator) \<and>
   Import ''foo/bar'' (snd (Import ''foo/bar'' NewGenerator)) = Import ''foo/bar'' NewGenerator"
proof -
  have ok: "registry_ok NewGenerator" by (rule registry_ok_NewGenerator)
  have ne: "''foo/bar'' \<noteq> ''baz/bar''" by simp
  have a: "fst (Import ''foo/bar'' NewGenerator) = ''bar''"
    by (simp add: import_defs NewGenerator_def is_free_def go_keywords_def)
  have b: "fst (Import ''baz/bar'' (snd (Import ''foo/bar'' NewGenerator))) = ''bar2''"
    by (simp add: import_defs NewGenerator_def is_free_def go_keywords_def
        suffixed_name.simps show_nat.simps digit_char_def)
  note t = Import_idempotent_and_injective [where p = "''foo/bar''" and q = "''baz/bar''"
      and g = NewGenerator and calls = "[]" and Parse = example_Parse
      and ParseFile = example_ParseFile]
  from t have c: "Import ''foo/bar'' (snd (Import ''foo/bar'' NewGenerator))
      = Import ''foo/bar'' NewGenerator"
    by (rule conjunct1)
  from t ok ne have d: "fst (Import ''baz/bar'' (snd (Import ''foo/bar'' NewGenerator)))
     \<noteq> fst (Import ''foo/bar'' NewGenerator)"
    by blast
  from ok ne a b d c show ?thesis by (intro conjI)
qed

end
